theory Spec2Isabelle
  imports Complex_Main
begin

section \<open>The noise monitor of \<^verbatim>\<open>src/main.py\<close>\<close>

text \<open>
  The class \<^verbatim>\<open>NoiseMonitor\<close> keeps a circular buffer of mono samples that the audio
  callback writes and the analysis routine reads. Python integers are \<open>int\<close>; samples
  and durations (numpy \<^verbatim>\<open>float32\<close>, Python \<^verbatim>\<open>float\<close>) are idealised as \<open>real\<close>, so
  rounding error, infinities and NaN are outside the model. Every exception the modelled
  code can raise is a value of \<open>error\<close>.
\<close>

subsection \<open>Python and numpy primitives\<close>

datatype error = ValueError | ZeroDivisionError | IndexError

text \<open>\<^verbatim>\<open>int(x)\<close> on a float truncates towards zero.\<close>

definition py_int :: "real \<Rightarrow> int" where
  "py_int x = (if 0 \<le> x then \<lfloor>x\<rfloor> else \<lceil>x\<rceil>)"

text \<open>
  A slice bound of a sequence of length \<open>n\<close>: a negative bound counts from the end, and
  every bound is clamped into \<open>0..n\<close>. A missing bound (\<^verbatim>\<open>a[i:]\<close>, \<^verbatim>\<open>a[:j]\<close>) is \<open>None\<close>.
\<close>

definition clamp_index :: "nat \<Rightarrow> int \<Rightarrow> nat" where
  "clamp_index n i = (if i < 0 then nat (max 0 (i + int n)) else min (nat i) n)"

definition slice_bounds :: "nat \<Rightarrow> int option \<Rightarrow> int option \<Rightarrow> nat \<times> nat" where
  "slice_bounds n lo hi =
     ((case lo of None \<Rightarrow> 0 | Some i \<Rightarrow> clamp_index n i),
      (case hi of None \<Rightarrow> n | Some j \<Rightarrow> clamp_index n j))"

text \<open>\<^verbatim>\<open>xs[lo:hi]\<close>: never raises; empty when the bounds cross.\<close>

definition py_slice :: "'a list \<Rightarrow> int option \<Rightarrow> int option \<Rightarrow> 'a list" where
  "py_slice xs lo hi =
     (case slice_bounds (length xs) lo hi of (a, b) \<Rightarrow> take (b - a) (drop a xs))"

text \<open>
  \<^verbatim>\<open>xs[lo:hi] = v\<close> on a one-dimensional numpy array: the array keeps its length; \<open>v\<close>
  must have the length of the slice, or length one (it is then broadcast); otherwise numpy
  raises \<^verbatim>\<open>ValueError\<close> (could not broadcast input array).
\<close>

definition np_set_slice ::
  "'a list \<Rightarrow> int option \<Rightarrow> int option \<Rightarrow> 'a list \<Rightarrow> error + 'a list" where
  "np_set_slice xs lo hi v =
     (case slice_bounds (length xs) lo hi of (a, b) \<Rightarrow>
        let m = b - a in
        if length v = m then Inr (take a xs @ v @ drop (a + m) xs)
        else if length v = 1 then Inr (take a xs @ replicate m (hd v) @ drop (a + m) xs)
        else Inl ValueError)"

text \<open>
  \<^verbatim>\<open>range(start, stop, step)\<close> as the list a \<^verbatim>\<open>for\<close> loop walks; a zero step raises
  \<^verbatim>\<open>ValueError\<close>.
\<close>

definition py_range :: "int \<Rightarrow> int \<Rightarrow> int \<Rightarrow> error + int list" where
  "py_range start stop step =
     (if step = 0 then Inl ValueError
      else if 0 < step then
        Inr (map (\<lambda>k. start + int k * step) [0..<nat ((stop - start + step - 1) div step)])
      else
        Inr (map (\<lambda>k. start + int k * step) [0..<nat ((start - stop - step - 1) div (- step))]))"

text \<open>\<^verbatim>\<open>np.mean\<close> of a non-empty array.\<close>

definition np_mean :: "real list \<Rightarrow> real" where
  "np_mean xs = sum_list xs / real (length xs)"

subsection \<open>The monitor's state\<close>

text \<open>
  The fields of \<^verbatim>\<open>NoiseMonitor\<close> that the buffer, the analysis and the processing loop
  use. \<open>buffer_locked\<close> is whether \<^verbatim>\<open>buffer_lock\<close> is held.
\<close>

record monitor =
  sample_rate :: int
  channels :: int
  buffer_duration :: real
  publish_interval :: real
  analysis_window :: real
  buffer_size :: int
  audio_buffer :: "real list"
  write_index :: int
  buffer_locked :: bool
  overflow_count :: int
  total_frames :: int
  stream_start_time :: "real option"
  ready_to_publish :: bool

text \<open>The dictionary \<^verbatim>\<open>analyze_audio\<close> returns.\<close>

record stats =
  min_db :: real
  max_db :: real
  avg_db :: real
  duration :: real
  overflows :: int

subsection \<open>\<^verbatim>\<open>calculate_db_from_samples\<close>\<close>

definition centered :: "real list \<Rightarrow> real list" where
  "centered samples = map (\<lambda>x. x - np_mean samples) samples"

definition rms_of :: "real list \<Rightarrow> real" where
  "rms_of samples = sqrt (np_mean (map (\<lambda>x. x ^ 2) (centered samples)))"

definition calculate_db_from_samples :: "real list \<Rightarrow> real" where
  "calculate_db_from_samples samples =
     (if length samples = 0 then - 80
      else
        let rms = rms_of samples in
        if rms > 1 / 10 ^ 10 then 20 * log 10 rms else - 80)"

subsection \<open>Construction: \<^verbatim>\<open>__init__\<close> and the buffer set-up of \<^verbatim>\<open>setup_audio_device\<close>\<close>

text \<open>
  \<^verbatim>\<open>__init__\<close> reads the configuration from the environment and
  \<^verbatim>\<open>setup_audio_device\<close> takes the sample rate from the device; both are parameters
  here. \<^verbatim>\<open>np.zeros\<close> of a negative size raises \<^verbatim>\<open>ValueError\<close>.
\<close>

definition new_monitor :: "int \<Rightarrow> real \<Rightarrow> real \<Rightarrow> real \<Rightarrow> real \<Rightarrow> error + monitor" where
  "new_monitor ch buf_dur pub_int window default_samplerate =
     (let rate = py_int default_samplerate;
          size = py_int (real_of_int rate * buf_dur)
      in if size < 0 then Inl ValueError
         else Inr \<lparr>sample_rate = rate, channels = ch, buffer_duration = buf_dur,
                   publish_interval = pub_int, analysis_window = window,
                   buffer_size = size, audio_buffer = replicate (nat size) 0,
                   write_index = 0, buffer_locked = False, overflow_count = 0,
                   total_frames = 0, stream_start_time = None,
                   ready_to_publish = False\<rparr>)"

text \<open>What the code maintains about the buffer once it is set up with a positive size.\<close>

definition buffer_ok :: "monitor \<Rightarrow> bool" where
  "buffer_ok s =
     (0 < buffer_size s \<and> length (audio_buffer s) = nat (buffer_size s)
      \<and> 0 \<le> write_index s \<and> write_index s < buffer_size s)"

subsection \<open>\<^verbatim>\<open>audio_callback\<close>\<close>

text \<open>
  A block \<^verbatim>\<open>indata\<close> is the list of its frames, each frame the list of its channel
  values. \<^verbatim>\<open>indata[:, k]\<close> raises \<^verbatim>\<open>IndexError\<close> when the block has no column \<open>k\<close>.
\<close>

definition column :: "real list list \<Rightarrow> nat \<Rightarrow> error + real list" where
  "column indata k =
     (if list_all (\<lambda>row. k < length row) indata then Inr (map (\<lambda>row. row ! k) indata)
      else Inl IndexError)"

definition mono_data_of :: "int \<Rightarrow> real list list \<Rightarrow> error + real list" where
  "mono_data_of ch indata =
     (if ch = 1 then column indata 0
      else
        case column indata 0 of
          Inl e \<Rightarrow> Inl e
        | Inr c0 \<Rightarrow>
            (case column indata 1 of
               Inl e \<Rightarrow> Inl e
             | Inr c1 \<Rightarrow> Inr (map (\<lambda>(a, b). (a + b) * (1 / 2)) (zip c0 c1))))"

text \<open>
  Lines 119 to 131: the write to the circular buffer. An exception leaves the monitor as
  it is at the raise: \<open>Inl (e, s')\<close> is the exception \<open>e\<close> with the monitor \<open>s'\<close>.
\<close>

definition write_buffer :: "monitor \<Rightarrow> real list \<Rightarrow> int \<Rightarrow> (error \<times> monitor) + monitor" where
  "write_buffer s mono_data frames =
     (let end_index = write_index s + frames in
      case
        (if end_index \<le> buffer_size s then
           (case np_set_slice (audio_buffer s) (Some (write_index s)) (Some end_index) mono_data of
              Inl e \<Rightarrow> Inl (e, s)
            | Inr b \<Rightarrow> Inr (s\<lparr>audio_buffer := b\<rparr>))
         else
           let first_part = buffer_size s - write_index s in
           case np_set_slice (audio_buffer s) (Some (write_index s)) None
                  (py_slice mono_data None (Some first_part)) of
             Inl e \<Rightarrow> Inl (e, s)
           | Inr b1 \<Rightarrow>
               (case np_set_slice b1 None (Some (end_index - buffer_size s))
                       (py_slice mono_data (Some first_part) None) of
                  Inl e \<Rightarrow> Inl (e, s\<lparr>audio_buffer := b1\<rparr>)
                | Inr b2 \<Rightarrow> Inr (s\<lparr>audio_buffer := b2\<rparr>)))
      of
        Inl raised \<Rightarrow> Inl raised
      | Inr s2 \<Rightarrow>
          if buffer_size s2 = 0 then Inl (ZeroDivisionError, s2)
          else Inr (s2\<lparr>write_index := end_index mod buffer_size s2,
                        total_frames := total_frames s2 + frames\<rparr>))"

definition audio_callback ::
  "monitor \<Rightarrow> real list list \<Rightarrow> int \<Rightarrow> bool \<Rightarrow> (error \<times> monitor) + monitor" where
  "audio_callback s indata frames input_overflow =
     (let s0 = (if input_overflow then s\<lparr>overflow_count := overflow_count s + 1\<rparr> else s) in
      case mono_data_of (channels s0) indata of
        Inl e \<Rightarrow> Inl (e, s0)
      | Inr mono_data \<Rightarrow> write_buffer s0 mono_data frames)"

text \<open>
  A sequence of callbacks, each block with its frame count the device passes (the number
  of its frames); the sequence stops at the first exception.
\<close>

fun callbacks :: "monitor \<Rightarrow> real list list list \<Rightarrow> (error \<times> monitor) + monitor" where
  "callbacks s [] = Inr s"
| "callbacks s (indata # rest) =
     (case audio_callback s indata (int (length indata)) False of
        Inl raised \<Rightarrow> Inl raised
      | Inr s' \<Rightarrow> callbacks s' rest)"

subsection \<open>\<^verbatim>\<open>get_recent_audio\<close>\<close>

definition samples_needed_of :: "monitor \<Rightarrow> real \<Rightarrow> int" where
  "samples_needed_of s duration_seconds =
     (let samples_needed = py_int (real_of_int (sample_rate s) * duration_seconds) in
      if samples_needed > buffer_size s then buffer_size s else samples_needed)"

text \<open>
  The body of the \<^verbatim>\<open>with self.buffer_lock\<close> block, given the start index: the test
  and the slices read \<^verbatim>\<open>self.write_index\<close> and the buffer as they are then.
\<close>

definition copy_out :: "monitor \<Rightarrow> int \<Rightarrow> real list" where
  "copy_out s start_index =
     (if start_index < write_index s then
        py_slice (audio_buffer s) (Some start_index) (Some (write_index s))
      else
        py_slice (audio_buffer s) (Some start_index) None
        @ py_slice (audio_buffer s) None (Some (write_index s)))"

definition get_recent_audio :: "monitor \<Rightarrow> real \<Rightarrow> error + real list" where
  "get_recent_audio s duration_seconds =
     (let samples_needed = samples_needed_of s duration_seconds in
      if buffer_size s = 0 then Inl ZeroDivisionError
      else
        let start_index = (write_index s - samples_needed) mod buffer_size s in
        Inr (copy_out s start_index))"

subsection \<open>\<^verbatim>\<open>get_recent_audio\<close> in steps, for interleavings with the callback\<close>

text \<open>
  The processing thread and the audio callback run concurrently, so a callback can run
  between two steps of \<^verbatim>\<open>get_recent_audio\<close>. The steps, in the order the method takes
  them: acquire \<^verbatim>\<open>buffer_lock\<close> (a thread that finds it held waits: \<open>None\<close>) and compute
  the start index (line 141); test \<^verbatim>\<open>start_index < self.write_index\<close> (line 143); take
  the slices of the branch chosen (lines 145 and 148 to 151), which read
  \<^verbatim>\<open>self.write_index\<close> and the buffer again; release the lock. \<^verbatim>\<open>audio_callback\<close> has no
  step that touches the lock.
\<close>

definition lock_acquire :: "monitor \<Rightarrow> monitor option" where
  "lock_acquire s = (if buffer_locked s then None else Some (s\<lparr>buffer_locked := True\<rparr>))"

definition lock_release :: "monitor \<Rightarrow> monitor" where
  "lock_release s = s\<lparr>buffer_locked := False\<rparr>"

definition read_begin :: "monitor \<Rightarrow> real \<Rightarrow> ((error \<times> monitor) + (monitor \<times> int)) option" where
  "read_begin s duration_seconds =
     (let samples_needed = samples_needed_of s duration_seconds in
      case lock_acquire s of
        None \<Rightarrow> None
      | Some s1 \<Rightarrow>
          Some (if buffer_size s1 = 0 then Inl (ZeroDivisionError, lock_release s1)
                else Inr (s1, (write_index s1 - samples_needed) mod buffer_size s1)))"

definition read_test :: "monitor \<Rightarrow> int \<Rightarrow> bool" where
  "read_test s start_index = (start_index < write_index s)"

definition read_copy :: "monitor \<Rightarrow> int \<Rightarrow> bool \<Rightarrow> real list" where
  "read_copy s start_index no_wrap =
     (if no_wrap then
        py_slice (audio_buffer s) (Some start_index) (Some (write_index s))
      else
        py_slice (audio_buffer s) (Some start_index) None
        @ py_slice (audio_buffer s) None (Some (write_index s)))"

subsection \<open>\<^verbatim>\<open>analyze_audio\<close>\<close>

text \<open>
  Line 181. The float \<open>0.1\<close> is the real \<open>1 / 10\<close> here; at the sample rates of audio
  devices the float product truncates to the same integer.
\<close>

definition chunk_size_of :: "monitor \<Rightarrow> int" where
  "chunk_size_of s = py_int (real_of_int (sample_rate s) * (1 / 10))"

text \<open>The loop of lines 184 to 188 over \<^verbatim>\<open>range(0, len(samples), chunk_size)\<close>.\<close>

definition chunk_db_values :: "real list \<Rightarrow> int \<Rightarrow> error + real list" where
  "chunk_db_values samples chunk_size =
     (case py_range 0 (int (length samples)) chunk_size of
        Inl e \<Rightarrow> Inl e
      | Inr indices \<Rightarrow>
          Inr (foldl
                (\<lambda>db_values i.
                   let chunk = py_slice samples (Some i) (Some (i + chunk_size)) in
                   if int (length chunk) \<ge> chunk_size div 2
                   then db_values @ [calculate_db_from_samples chunk]
                   else db_values)
                [] indices))"

text \<open>The chunk the loop takes at its \<open>k\<close>-th iteration when the chunk size is \<open>c\<close>:
  \<^verbatim>\<open>samples[k*c : k*c + c]\<close>.\<close>

definition chunk_at :: "'a list \<Rightarrow> nat \<Rightarrow> nat \<Rightarrow> 'a list" where
  "chunk_at xs c k = take c (drop (k * c) xs)"

text \<open>The body of the \<^verbatim>\<open>try\<close>; \<^verbatim>\<open>analyze_audio\<close> turns every exception into \<^verbatim>\<open>None\<close>.\<close>

definition analyze_audio_try :: "monitor \<Rightarrow> error + stats option" where
  "analyze_audio_try s =
     (case get_recent_audio s (analysis_window s) of
        Inl e \<Rightarrow> Inl e
      | Inr samples \<Rightarrow>
          if length samples = 0 then Inr None
          else
            case chunk_db_values samples (chunk_size_of s) of
              Inl e \<Rightarrow> Inl e
            | Inr db_values \<Rightarrow>
                if db_values \<noteq> [] then
                  let overall_db = calculate_db_from_samples samples in
                  if sample_rate s = 0 then Inl ZeroDivisionError
                  else Inr (Some \<lparr>min_db = Min (set db_values),
                                   max_db = Max (set db_values),
                                   avg_db = overall_db,
                                   duration = real (length samples) / real_of_int (sample_rate s),
                                   overflows = overflow_count s\<rparr>)
                else Inr None)"

definition analyze_audio :: "monitor \<Rightarrow> stats option" where
  "analyze_audio s = (case analyze_audio_try s of Inl e \<Rightarrow> None | Inr r \<Rightarrow> r)"

subsection \<open>\<^verbatim>\<open>processing_loop\<close>\<close>

text \<open>
  The test of line 266: \<^verbatim>\<open>self.stream_start_time\<close> is tested for truth first
  (\<^verbatim>\<open>None\<close> and \<open>0.0\<close> are false), then the elapsed time is compared.
\<close>

definition window_elapsed :: "monitor \<Rightarrow> real \<Rightarrow> bool" where
  "window_elapsed s now =
     (case stream_start_time s of
        None \<Rightarrow> False
      | Some t \<Rightarrow> t \<noteq> 0 \<and> now - t \<ge> analysis_window s)"

text \<open>
  One iteration of the loop at clock reading \<open>now\<close>: the monitor afterwards, what was
  handed to \<^verbatim>\<open>publish_data\<close>, and how long the iteration then waits. \<^verbatim>\<open>analyze_audio\<close>
  raises nothing; the MQTT client behind \<^verbatim>\<open>publish_data\<close> is outside the model and is
  taken to accept the message.
\<close>

definition processing_step :: "monitor \<Rightarrow> real \<Rightarrow> monitor \<times> stats option \<times> real" where
  "processing_step s now =
     (if \<not> ready_to_publish s \<and> \<not> window_elapsed s now then (s, None, 1)
      else
        let s1 = (if \<not> ready_to_publish s then s\<lparr>ready_to_publish := True\<rparr> else s) in
        (s1, analyze_audio s1, publish_interval s1))"

text \<open>
  What happens to the monitor until shutdown: iterations of the processing loop, each at
  its clock reading, and audio callbacks between them. The monitor after an exception in
  a callback is the one the exception left.
\<close>

datatype event = Tick real | Audio "real list list" int bool

fun run_events :: "monitor \<Rightarrow> event list \<Rightarrow> monitor \<times> stats list" where
  "run_events s [] = (s, [])"
| "run_events s (Tick now # es) =
     (case processing_step s now of
        (s1, data, w) \<Rightarrow>
          (case run_events s1 es of
             (s2, pubs) \<Rightarrow> (s2, (case data of None \<Rightarrow> pubs | Some d \<Rightarrow> d # pubs))))"
| "run_events s (Audio indata frames ov # es) =
     (case audio_callback s indata frames ov of
        Inl (e, s1) \<Rightarrow> run_events s1 es
      | Inr s1 \<Rightarrow> run_events s1 es)"

text \<open>The monitor a callback leaves, whether it returned or raised.\<close>

definition state_after :: "(error \<times> monitor) + monitor \<Rightarrow> monitor" where
  "state_after r = (case r of Inl (e, s1) \<Rightarrow> s1 | Inr s1 \<Rightarrow> s1)"

subsection \<open>The buffer in time order\<close>

text \<open>
  The contents of the circular buffer from the oldest sample to the newest: the part from
  the write index to the end, then the part before the write index.
\<close>

definition ring_view :: "monitor \<Rightarrow> real list" where
  "ring_view s =
     drop (nat (write_index s)) (audio_buffer s) @ take (nat (write_index s)) (audio_buffer s)"

subsection \<open>Concrete monitors\<close>

text \<open>
  A one-channel monitor in the state the given buffer and write index describe, with the
  default buffer duration and publish interval; the concrete inputs below are built from it.
\<close>

definition monitor_with :: "int \<Rightarrow> real \<Rightarrow> real list \<Rightarrow> int \<Rightarrow> monitor" where
  "monitor_with rate window buf w =
     \<lparr>sample_rate = rate, channels = 1, buffer_duration = 30, publish_interval = 5,
      analysis_window = window, buffer_size = int (length buf), audio_buffer = buf,
      write_index = w, buffer_locked = False, overflow_count = 0, total_frames = 0,
      stream_start_time = None, ready_to_publish = False\<rparr>"

section \<open>Properties of the decibel computation\<close>

lemma np_mean_zeros: "np_mean (replicate n 0) = 0"
  by (simp add: np_mean_def sum_list_replicate)

lemma rms_of_zeros: "rms_of (replicate n 0) = 0"
  by (simp add: rms_of_def centered_def np_mean_zeros)

lemma rms_of_one_minus_one: "rms_of [1, - 1] = 1"
  by (simp add: rms_of_def centered_def np_mean_def)

lemma all_zero_replicate: "(\<forall>x \<in> set xs. x = (0::real)) \<Longrightarrow> xs = replicate (length xs) 0"
  by (induction xs) auto

lemma rms_of_explicit:
  "rms_of samples =
     sqrt (sum_list (map (\<lambda>x. (x - sum_list samples / real (length samples)) ^ 2) samples)
           / real (length samples))"
  by (simp add: rms_of_def centered_def np_mean_def comp_def)

text \<open>
  Claim C3. The decibel value of an empty array is \<open>-80\<close>; so is that of an array of
  zeros. For a non-empty array of \<open>n\<close> samples with arithmetic mean \<open>mean\<close>, let \<open>rms\<close> be
  the square root of the mean of the squared deviations \<open>(x - mean)\<^sup>2\<close>: the value
  is \<open>-80\<close> when \<open>rms\<close> is at most \<open>1e-10\<close>, and \<open>20 * log10 rms\<close> otherwise. So a
  constant signal, whatever its level, is at the floor.
\<close>

theorem decibels_floor:
  "calculate_db_from_samples [] = - 80
   \<and> ((\<forall>x \<in> set samples. x = 0) \<longrightarrow> calculate_db_from_samples samples = - 80)
   \<and> (samples \<noteq> [] \<longrightarrow>
        (let n = real (length samples);
             mean = sum_list samples / n;
             rms = sqrt (sum_list (map (\<lambda>x. (x - mean) ^ 2) samples) / n)
         in calculate_db_from_samples samples
              = (if rms \<le> 1 / 10 ^ 10 then - 80 else 20 * log 10 rms)))"
proof -
  have zeros: "calculate_db_from_samples samples = - 80" if "\<forall>x \<in> set samples. x = 0"
  proof -
    from that have "samples = replicate (length samples) 0"
      by (rule all_zero_replicate)
    then have "rms_of samples = 0"
      using rms_of_zeros [of "length samples"] by simp
    then show ?thesis
      by (simp add: calculate_db_from_samples_def)
  qed
  have explicit: "calculate_db_from_samples samples
      = (if sqrt (sum_list (map (\<lambda>x. (x - sum_list samples / real (length samples)) ^ 2) samples)
                  / real (length samples)) \<le> 1 / 10 ^ 10
         then - 80
         else 20 * log 10
                (sqrt (sum_list (map (\<lambda>x. (x - sum_list samples / real (length samples)) ^ 2) samples)
                       / real (length samples))))"
    if "samples \<noteq> []"
    using that unfolding calculate_db_from_samples_def Let_def rms_of_explicit
    by (simp add: not_less)
  show ?thesis
    using zeros explicit by (simp add: calculate_db_from_samples_def Let_def)
qed

theorem decibels_floor_witness:
  "calculate_db_from_samples [0, 0, 0] = - 80
   \<and> calculate_db_from_samples [1, 1] = - 80
   \<and> calculate_db_from_samples [3, 1] = 0
   \<and> calculate_db_from_samples [4, 0] = 20 * log 10 2"
  using decibels_floor [of "[0, 0, 0]"] decibels_floor [of "[1, 1]"]
    decibels_floor [of "[3, 1]"] decibels_floor [of "[4, 0]"]
  by (simp add: Let_def)

section \<open>Properties of the circular buffer\<close>

subsection \<open>Slices at bounds inside the array\<close>

lemma np_set_slice_mid:
  "w + length d \<le> length B \<Longrightarrow>
   np_set_slice B (Some (int w)) (Some (int w + int (length d))) d
     = Inr (take w B @ d @ drop (w + length d) B)"
  by (simp add: np_set_slice_def slice_bounds_def clamp_index_def min_def Let_def nat_add_distrib)

lemma np_set_slice_tail:
  "w \<le> length B \<Longrightarrow> length v = length B - w \<Longrightarrow>
   np_set_slice B (Some (int w)) None v = Inr (take w B @ v)"
  by (simp add: np_set_slice_def slice_bounds_def clamp_index_def min_def Let_def)

lemma np_set_slice_head:
  "m \<le> length B \<Longrightarrow> length v = m \<Longrightarrow>
   np_set_slice B None (Some (int m)) v = Inr (v @ drop m B)"
  by (simp add: np_set_slice_def slice_bounds_def clamp_index_def min_def Let_def)

lemma py_slice_to: "py_slice xs None (Some (int j)) = take j xs"
  by (simp add: py_slice_def slice_bounds_def clamp_index_def min_def)

lemma py_slice_from: "py_slice xs (Some (int i)) None = drop i xs"
  by (simp add: py_slice_def slice_bounds_def clamp_index_def min_def)


lemma write_buffer_nowrap:
  assumes "buffer_size s = int N" "write_index s = int w" "length (audio_buffer s) = N"
    and "w + length d \<le> N" "0 < N"
  shows "write_buffer s d (int (length d)) =
     Inr (s\<lparr>audio_buffer := take w (audio_buffer s) @ d @ drop (w + length d) (audio_buffer s),
            write_index := (int w + int (length d)) mod int N,
            total_frames := total_frames s + int (length d)\<rparr>)"
proof -
  have 1: "np_set_slice (audio_buffer s) (Some (int w)) (Some (int w + int (length d))) d
     = Inr (take w (audio_buffer s) @ d @ drop (w + length d) (audio_buffer s))"
    using assms by (intro np_set_slice_mid) simp
  have le: "int w + int (length d) \<le> int N" using assms by linarith
  show ?thesis
    unfolding write_buffer_def Let_def assms(1,2) using le assms(5)
    by (simp add: 1 assms(1))
qed


lemma write_buffer_wrap:
  assumes "buffer_size s = int N" "write_index s = int w" "length (audio_buffer s) = N"
    and "N < w + length d" "w + length d \<le> 2 * N" "w < N"
  shows "write_buffer s d (int (length d)) =
     Inr (s\<lparr>audio_buffer := drop (N - w) d @ drop (w + length d - N) (take w (audio_buffer s) @ take (N - w) d),
            write_index := (int w + int (length d)) mod int N,
            total_frames := total_frames s + int (length d)\<rparr>)"
proof -
  have fp: "int N - int w = int (N - w)" using assms by simp
  have e: "int w + int (length d) - int N = int (w + length d - N)" using assms by simp
  have 1: "np_set_slice (audio_buffer s) (Some (int w)) None (take (N - w) d)
        = Inr (take w (audio_buffer s) @ take (N - w) d)"
    using assms by (intro np_set_slice_tail) auto
  have 2: "np_set_slice (take w (audio_buffer s) @ take (N - w) d) None
              (Some (int w + int (length d) - int N)) (drop (N - w) d)
     = Inr (drop (N - w) d @ drop (w + length d - N) (take w (audio_buffer s) @ take (N - w) d))"
    unfolding e using assms by (intro np_set_slice_head) auto
  have gt: "\<not> int w + int (length d) \<le> int N" using assms by linarith
  have nz: "int N \<noteq> 0" using assms by simp
  show ?thesis
    unfolding write_buffer_def Let_def assms(1,2) fp py_slice_to py_slice_from 1
    using gt nz
    by (simp add: 2 assms(1))
qed

subsection \<open>One write, and a sequence of writes\<close>

lemma ring_view_length: "length (audio_buffer s) = nat (buffer_size s) \<Longrightarrow> write_index s \<le> buffer_size s
   \<Longrightarrow> length (ring_view s) = nat (buffer_size s)"
  by (simp add: ring_view_def)

lemma write_buffer_ring:
  assumes ok: "buffer_ok s" and len: "length d \<le> nat (buffer_size s)"
  shows "\<exists>s'. write_buffer s d (int (length d)) = Inr s' \<and> buffer_ok s'
           \<and> buffer_size s' = buffer_size s \<and> channels s' = channels s
           \<and> sample_rate s' = sample_rate s
           \<and> ring_view s' = drop (length d) (ring_view s @ d)"
proof -
  obtain N w where N: "buffer_size s = int N" and w: "write_index s = int w"
    and B: "length (audio_buffer s) = N" and wN: "w < N"
    using ok unfolding buffer_ok_def
    by (metis nat_int zero_less_imp_eq_int int_nat_eq nat_less_iff)
  have dN: "length d \<le> N" using len N by simp
  show ?thesis
  proof (cases "w + length d \<le> N")
    case True
    note wb = write_buffer_nowrap [OF N w B True]
    show ?thesis
    proof (cases "w + length d = N")
      case True
      then have "int w + int (length d) = int N" by (simp flip: of_nat_add)
      then have m: "(int w + int (length d)) mod int N = 0" by simp
      show ?thesis using wb wN B N w True
        by (simp add: buffer_ok_def ring_view_def m del: of_nat_add)
    next
      case False
      then have lt: "w + length d < N" using True by simp
      then have m: "(int w + int (length d)) mod int N = int (w + length d)"
        by (simp flip: of_nat_add)
      show ?thesis using wb wN B N w lt
        by (simp add: buffer_ok_def ring_view_def m add.commute del: of_nat_add)
    qed
  next
    case False
    then have gt: "N < w + length d" by simp
    have le2: "w + length d \<le> 2 * N" using dN wN by simp
    note wb = write_buffer_wrap [OF N w B gt le2 wN]
    have m: "(int w + int (length d)) mod int N = int (w + length d - N)"
    proof -
      have "(w + length d) mod N = w + length d - N"
        using gt dN wN by (simp add: mod_if)
      then show ?thesis by (metis of_nat_add zmod_int)
    qed
    show ?thesis using wb wN B N w gt dN
      by (simp add: buffer_ok_def ring_view_def m add.commute del: of_nat_add)
  qed
qed


lemma column_length: "column indata k = Inr c \<Longrightarrow> length c = length indata"
  by (auto simp: column_def split: if_splits)

lemma mono_data_length: "mono_data_of ch indata = Inr m \<Longrightarrow> length m = length indata"
  by (auto simp: mono_data_of_def split: if_splits sum.splits dest!: column_length)

lemma audio_callback_ring:
  assumes ok: "buffer_ok s" and mono: "mono_data_of (channels s) indata = Inr m"
    and len: "length indata \<le> nat (buffer_size s)"
  shows "\<exists>s'. audio_callback s indata (int (length indata)) False = Inr s' \<and> buffer_ok s'
           \<and> buffer_size s' = buffer_size s \<and> channels s' = channels s
           \<and> sample_rate s' = sample_rate s
           \<and> ring_view s' = drop (length m) (ring_view s @ m)"
proof -
  have lm: "length m = length indata" using mono by (rule mono_data_length)
  then have "length m \<le> nat (buffer_size s)" using len by simp
  from write_buffer_ring [OF ok this] show ?thesis
    by (simp add: audio_callback_def mono lm)
qed

lemma drop_drop_append:
  "a \<le> length xs \<Longrightarrow> drop b (drop a xs @ ys) = drop (a + b) (xs @ ys)"
  by (simp add: add.commute)

lemma callbacks_ring:
  assumes "buffer_ok s"
    and "list_all2 (\<lambda>indata m. mono_data_of (channels s) indata = Inr m) blocks wr"
    and "\<forall>b \<in> set blocks. length b \<le> nat (buffer_size s)"
  shows "\<exists>s'. callbacks s blocks = Inr s' \<and> buffer_ok s'
           \<and> buffer_size s' = buffer_size s \<and> channels s' = channels s
           \<and> sample_rate s' = sample_rate s
           \<and> ring_view s' = drop (length (concat wr)) (ring_view s @ concat wr)"
  using assms
proof (induction blocks arbitrary: s wr)
  case Nil
  then show ?case by simp
next
  case (Cons b bs)
  from Cons.prems(2) obtain m ms where wr: "wr = m # ms"
    and m: "mono_data_of (channels s) b = Inr m"
    and ms: "list_all2 (\<lambda>indata m. mono_data_of (channels s) indata = Inr m) bs ms"
    by (auto simp: list_all2_Cons1)
  from Cons.prems(3) have lb: "length b \<le> nat (buffer_size s)" by simp
  from audio_callback_ring [OF Cons.prems(1) m lb] obtain s1 where
    cb: "audio_callback s b (int (length b)) False = Inr s1" and ok1: "buffer_ok s1"
    and bs1: "buffer_size s1 = buffer_size s" and ch1: "channels s1 = channels s"
    and sr1: "sample_rate s1 = sample_rate s"
    and rv1: "ring_view s1 = drop (length m) (ring_view s @ m)"
    by blast
  have "\<exists>s'. callbacks s1 bs = Inr s' \<and> buffer_ok s'
           \<and> buffer_size s' = buffer_size s1 \<and> channels s' = channels s1
           \<and> sample_rate s' = sample_rate s1
           \<and> ring_view s' = drop (length (concat ms)) (ring_view s1 @ concat ms)"
    using ok1 ms Cons.prems(3) by (intro Cons.IH) (simp_all add: ch1 bs1)
  then obtain s' where r: "callbacks s1 bs = Inr s'" "buffer_ok s'"
    "buffer_size s' = buffer_size s1" "channels s' = channels s1"
    "sample_rate s' = sample_rate s1"
    "ring_view s' = drop (length (concat ms)) (ring_view s1 @ concat ms)"
    by blast
  have "ring_view s' = drop (length m + length (concat ms)) ((ring_view s @ m) @ concat ms)"
    unfolding r(6) rv1 by (rule drop_drop_append) simp
  then show ?case
    using r cb bs1 ch1 sr1 by (simp add: wr)
qed


lemma get_recent_audio_full:
  assumes ok: "buffer_ok s"
    and full: "buffer_size s \<le> py_int (real_of_int (sample_rate s) * seconds)"
  shows "get_recent_audio s seconds = Inr (ring_view s)"
proof -
  have n: "samples_needed_of s seconds = buffer_size s"
    using full by (auto simp: samples_needed_of_def Let_def)
  have st: "(write_index s - buffer_size s) mod buffer_size s = write_index s"
    using ok by (simp add: buffer_ok_def)
  have w: "write_index s = int (nat (write_index s))"
    using ok by (simp add: buffer_ok_def)
  have "copy_out s (write_index s) = ring_view s"
    unfolding copy_out_def ring_view_def
    by (subst (2 3) w) (simp only: py_slice_from py_slice_to less_irrefl if_False)
  then show ?thesis
    using ok by (simp add: get_recent_audio_def Let_def n st buffer_ok_def)
qed

text \<open>
  Claim C1. From a monitor whose buffer is set up, a sequence of callbacks, each block of
  at most \<open>capacity\<close> frames and together \<open>capacity + k\<close> frames with \<open>k < capacity\<close>,
  succeeds and leaves in the buffer, from oldest to newest, the last \<open>capacity\<close> samples
  written: the samples written without their first \<open>k\<close>; reading back at least
  \<open>capacity\<close> samples returns exactly these. In particular, with capacity 1000, 600
  zeros and then 600 ones read back as 400 zeros followed by 600 ones.
\<close>

theorem wraparound_keeps_last_capacity:
  assumes "buffer_ok s"
    and "list_all2 (\<lambda>indata m. mono_data_of (channels s) indata = Inr m) blocks written"
    and "\<forall>b \<in> set blocks. length b \<le> nat (buffer_size s)"
    and "length (concat written) = nat (buffer_size s) + k"
    and "k < nat (buffer_size s)"
    and "buffer_size s \<le> py_int (real_of_int (sample_rate s) * seconds)"
  shows "\<exists>s'. callbacks s blocks = Inr s'
           \<and> ring_view s' = drop k (concat written)
           \<and> length (ring_view s') = nat (buffer_size s)
           \<and> get_recent_audio s' seconds = Inr (drop k (concat written))"
proof -
  from callbacks_ring [OF assms(1-3)] obtain s' where
    r: "callbacks s blocks = Inr s'" "buffer_ok s'" "buffer_size s' = buffer_size s"
      "sample_rate s' = sample_rate s"
      "ring_view s' = drop (length (concat written)) (ring_view s @ concat written)"
    by blast
  have l: "length (ring_view s) = nat (buffer_size s)"
    using assms(1) by (auto simp: ring_view_def buffer_ok_def)
  have rv: "ring_view s' = drop k (concat written)"
    unfolding r(5) assms(4) using l by simp
  have "get_recent_audio s' seconds = Inr (ring_view s')"
    using r(2) assms(6) by (intro get_recent_audio_full) (simp_all add: r(3,4))
  then show ?thesis
    using r(1) rv assms(4) by simp
qed

theorem wraparound_keeps_last_capacity_witness:
  "\<exists>s'. callbacks (monitor_with 100 10 (replicate 1000 0) 0)
            [replicate 600 [0], replicate 600 [1]] = Inr s'
        \<and> get_recent_audio s' 10 = Inr (replicate 400 0 @ replicate 600 1)"
proof -
  have 1: "buffer_ok (monitor_with 100 10 (replicate 1000 0) 0)"
    by (simp add: buffer_ok_def monitor_with_def)
  have 2: "list_all2 (\<lambda>indata m. mono_data_of (channels (monitor_with 100 10 (replicate 1000 0) 0)) indata = Inr m)
             [replicate 600 [0], replicate 600 [1]] [replicate 600 0, replicate 600 1]"
    by (simp add: monitor_with_def mono_data_of_def column_def list_all_iff)
  have 3: "\<forall>b \<in> set [replicate 600 [0::real], replicate 600 [1]].
             length b \<le> nat (buffer_size (monitor_with 100 10 (replicate 1000 0) 0))"
    by (simp add: monitor_with_def)
  have 4: "length (concat [replicate 600 (0::real), replicate 600 1])
             = nat (buffer_size (monitor_with 100 10 (replicate 1000 0) 0)) + 200"
    by (simp add: monitor_with_def)
  have 5: "200 < nat (buffer_size (monitor_with 100 10 (replicate 1000 0) 0))"
    by (simp add: monitor_with_def)
  have 6: "buffer_size (monitor_with 100 10 (replicate 1000 0) 0)
             \<le> py_int (real_of_int (sample_rate (monitor_with 100 10 (replicate 1000 0) 0)) * 10)"
    by (simp add: monitor_with_def py_int_def)
  from wraparound_keeps_last_capacity [OF 1 2 3 4 5 6] obtain s' where
    a: "callbacks (monitor_with 100 10 (replicate 1000 0) 0)
          [replicate 600 [0], replicate 600 [1]] = Inr s'"
    and b: "get_recent_audio s' 10
          = Inr (drop 200 (concat [replicate 600 0, replicate 600 1]))"
    by blast
  have "drop 200 (concat [replicate 600 (0::real), replicate 600 1])
          = replicate 400 0 @ replicate 600 1"
    by simp
  with a b show ?thesis
    by (intro exI [of _ s']) (simp del: callbacks.simps)
qed

subsection \<open>Reading the most recent samples\<close>

lemma py_slice_both:
  "j \<le> length xs \<Longrightarrow> py_slice xs (Some (int i)) (Some (int j)) = take (j - i) (drop i xs)"
  by (auto simp: py_slice_def slice_bounds_def clamp_index_def min_def)

lemma buffer_ok_nat:
  assumes "buffer_ok s"
  obtains N w where "buffer_size s = int N" "write_index s = int w"
    "length (audio_buffer s) = N" "w < N"
  using assms unfolding buffer_ok_def
  by (metis nat_int zero_less_imp_eq_int int_nat_eq nat_less_iff)

lemma copy_out_recent:
  assumes N: "buffer_size s = int N" and w: "write_index s = int w"
    and B: "length (audio_buffer s) = N" and wN: "w < N"
    and k: "1 \<le> k" "k \<le> N"
  shows "copy_out s ((int w - int k) mod int N) = drop (N - k) (ring_view s)"
proof (cases "k \<le> w")
  case True
  define a where "a = w - k"
  have a: "a < w" "w - a = k" "a + k = w" "w - k = a"
    using True k by (simp_all add: a_def)
  have "int w - int k = int a" using a by linarith
  then have st: "(int w - int k) mod int N = int a"
    using a wN by simp
  have "copy_out s (int a) = take k (drop a (audio_buffer s))"
    using a wN B by (simp add: copy_out_def w py_slice_both)
  also have "\<dots> = drop (N - k) (ring_view s)"
    using a k wN B by (simp add: ring_view_def w drop_take)
  finally show ?thesis by (simp only: st)
next
  case False
  define a where "a = w + N - k"
  have a: "w \<le> a" "a < N" "a + k = w + N"
    using False k by (simp_all add: a_def)
  have "int w - int k = int a - int N" using a by linarith
  then have "(int w - int k) mod int N = int a mod int N"
    by (simp add: mod_diff_right_eq)
  then have st: "(int w - int k) mod int N = int a"
    using a by simp
  have "copy_out s (int a) = drop a (audio_buffer s) @ take w (audio_buffer s)"
    using a by (simp add: copy_out_def w py_slice_from py_slice_to)
  also have "\<dots> = drop (N - k) (ring_view s)"
  proof -
    have "N - k + w = a" using a k by linarith
    moreover have "N - k \<le> N - w" using a k by linarith
    ultimately show ?thesis using B wN by (simp add: ring_view_def w)
  qed
  finally show ?thesis by (simp only: st)
qed


lemma samples_needed_min:
  "samples_needed_of s seconds
     = min (buffer_size s) (py_int (real_of_int (sample_rate s) * seconds))"
  by (simp add: samples_needed_of_def Let_def min_def)

lemma get_recent_audio_recent:
  assumes ok: "buffer_ok s" and n: "1 \<le> samples_needed_of s seconds"
  shows "get_recent_audio s seconds =
           Inr (drop (nat (buffer_size s) - nat (samples_needed_of s seconds)) (ring_view s))"
proof -
  from ok obtain N w where N: "buffer_size s = int N" and w: "write_index s = int w"
    and B: "length (audio_buffer s) = N" and wN: "w < N"
    by (rule buffer_ok_nat)
  define k where "k = nat (samples_needed_of s seconds)"
  have kn: "samples_needed_of s seconds = int k" using n by (simp add: k_def)
  have k: "1 \<le> k" "k \<le> N"
    using n kn samples_needed_min [of s seconds] N by simp_all
  have "get_recent_audio s seconds = Inr (copy_out s ((int w - int k) mod int N))"
    using wN by (simp add: get_recent_audio_def Let_def kn N w)
  then show ?thesis
    unfolding copy_out_recent [OF N w B wN k] by (simp add: N kn)
qed

text \<open>
  Claim C6, as the code has it. \<^verbatim>\<open>get_recent_audio\<close> truncates
  \<open>sample_rate * seconds\<close> with \<^verbatim>\<open>int\<close>; it does not round. For every \<open>seconds\<close> whose
  truncated sample count is at least one, on a buffer that is set up, the number of
  samples needed is the minimum of the capacity and that count, the copy starts at index
  \<open>(write_index - samples_needed) mod capacity\<close>, and it has exactly \<open>samples_needed\<close>
  samples: the most recent ones, oldest first.
\<close>

theorem read_recent_truncated:
  assumes "buffer_ok s"
    and "1 \<le> py_int (real_of_int (sample_rate s) * seconds)"
  shows "samples_needed_of s seconds
           = min (buffer_size s) (py_int (real_of_int (sample_rate s) * seconds))
         \<and> get_recent_audio s seconds
           = Inr (copy_out s ((write_index s - samples_needed_of s seconds) mod buffer_size s))
         \<and> (\<exists>xs. get_recent_audio s seconds = Inr xs
               \<and> int (length xs) = samples_needed_of s seconds
               \<and> xs = drop (nat (buffer_size s) - length xs) (ring_view s))"
proof -
  have n: "1 \<le> samples_needed_of s seconds"
    using assms by (simp add: samples_needed_min buffer_ok_def)
  have le: "samples_needed_of s seconds \<le> buffer_size s"
    by (simp add: samples_needed_min)
  have l: "length (ring_view s) = nat (buffer_size s)"
    using assms(1) by (auto simp: ring_view_def buffer_ok_def)
  have len: "length (drop (nat (buffer_size s) - nat (samples_needed_of s seconds)) (ring_view s))
               = nat (samples_needed_of s seconds)"
    using n le l by simp
  have g: "get_recent_audio s seconds
           = Inr (copy_out s ((write_index s - samples_needed_of s seconds) mod buffer_size s))"
    using assms(1) by (simp add: get_recent_audio_def Let_def buffer_ok_def)
  show ?thesis
    using get_recent_audio_recent [OF assms(1) n] len n g
    by (simp add: samples_needed_min)
qed

theorem read_recent_truncated_witness:
  "1 \<le> py_int (real_of_int (sample_rate (monitor_with 10 10 [1, 2, 3, 4] 1)) * (3 / 10))
   \<and> samples_needed_of (monitor_with 10 10 [1, 2, 3, 4] 1) (3 / 10) = 3
   \<and> get_recent_audio (monitor_with 10 10 [1, 2, 3, 4] 1) (3 / 10) = Inr [3, 4, 1]"
proof -
  have 1: "buffer_ok (monitor_with 10 10 [1, 2, 3, 4] 1)"
    by (simp add: buffer_ok_def monitor_with_def)
  have 2: "1 \<le> py_int (real_of_int (sample_rate (monitor_with 10 10 [1, 2, 3, 4] 1)) * (3 / 10))"
    by (simp add: monitor_with_def py_int_def)
  have 3: "ring_view (monitor_with 10 10 [1, 2, 3, 4] 1) = [2, 3, 4, 1]"
    by (simp add: ring_view_def monitor_with_def)
  have 4: "py_int (real_of_int (sample_rate (monitor_with 10 10 [1, 2, 3, 4] 1)) * (3 / 10)) = 3"
    by (simp add: monitor_with_def py_int_def)
  have 5: "buffer_size (monitor_with 10 10 [1, 2, 3, 4] 1) = 4"
    by (simp add: monitor_with_def)
  from read_recent_truncated [OF 1 2] show ?thesis
    unfolding 3 4 5 by auto
qed

text \<open>
  The claim with \<open>round\<close> fails: at 10 samples per second and \<open>seconds = 0.19\<close> the
  rounded count is 2 and the copy has 1 sample; at \<open>seconds = 0.01\<close> the count, rounded
  or truncated, is 0 and the copy has all 4 samples of the buffer.
\<close>

theorem read_recent_rounding_counterexample:
  "get_recent_audio (monitor_with 10 10 [1, 2, 3, 4] 0) (19 / 100) = Inr [4]
   \<and> min (buffer_size (monitor_with 10 10 [1, 2, 3, 4] 0))
         (round (19 / 100 * real_of_int (sample_rate (monitor_with 10 10 [1, 2, 3, 4] 0)))) = 2
   \<and> get_recent_audio (monitor_with 10 10 [1, 2, 3, 4] 0) (1 / 100) = Inr [1, 2, 3, 4]
   \<and> min (buffer_size (monitor_with 10 10 [1, 2, 3, 4] 0))
         (round (1 / 100 * real_of_int (sample_rate (monitor_with 10 10 [1, 2, 3, 4] 0)))) = 0"
  by (simp add: get_recent_audio_def samples_needed_of_def copy_out_def monitor_with_def
      py_int_def py_slice_def slice_bounds_def clamp_index_def round_def)

text \<open>
  Claim C2, as the code has it. The buffer starts filled with zeros and
  \<^verbatim>\<open>get_recent_audio\<close> does not look at how much was written: on a monitor just
  constructed (write index 0, no frames written), a read that needs at least one sample
  returns that many zeros, not an empty window.
\<close>

theorem read_before_write_zero_fill:
  assumes "new_monitor ch buf_dur pub_int window default_samplerate = Inr s"
    and "1 \<le> samples_needed_of s seconds"
  shows "write_index s = 0 \<and> total_frames s = 0
         \<and> get_recent_audio s seconds = Inr (replicate (nat (samples_needed_of s seconds)) 0)"
proof -
  have le: "samples_needed_of s seconds \<le> buffer_size s"
    by (simp add: samples_needed_min)
  have f: "audio_buffer s = replicate (nat (buffer_size s)) 0" "write_index s = 0"
    "total_frames s = 0"
    using assms(1) by (auto simp: new_monitor_def Let_def split: if_splits)
  have ok: "buffer_ok s"
    using f le assms(2) by (simp add: buffer_ok_def)
  have rv: "ring_view s = replicate (nat (buffer_size s)) 0"
    by (simp add: ring_view_def f)
  show ?thesis
    using get_recent_audio_recent [OF ok assms(2)] le assms(2)
    by (simp add: rv f)
qed

theorem read_before_write_zero_fill_witness:
  "new_monitor 1 (4 / 10) 5 (2 / 10) 10 = Inr (monitor_with 10 (2 / 10) [0, 0, 0, 0] 0\<lparr>buffer_duration := 4 / 10\<rparr>)
   \<and> samples_needed_of (monitor_with 10 (2 / 10) [0, 0, 0, 0] 0\<lparr>buffer_duration := 4 / 10\<rparr>) (2 / 10) = 2
   \<and> get_recent_audio (monitor_with 10 (2 / 10) [0, 0, 0, 0] 0\<lparr>buffer_duration := 4 / 10\<rparr>) (2 / 10) = Inr [0, 0]"
proof -
  have 1: "new_monitor 1 (4 / 10) 5 (2 / 10) 10
             = Inr (monitor_with 10 (2 / 10) [0, 0, 0, 0] 0\<lparr>buffer_duration := 4 / 10\<rparr>)"
    by (simp add: new_monitor_def monitor_with_def py_int_def Let_def numeral_eq_Suc)
  have 2: "samples_needed_of (monitor_with 10 (2 / 10) [0, 0, 0, 0] 0\<lparr>buffer_duration := 4 / 10\<rparr>) (2 / 10) = 2"
    by (simp add: samples_needed_of_def monitor_with_def py_int_def)
  then have 3: "1 \<le> samples_needed_of (monitor_with 10 (2 / 10) [0, 0, 0, 0] 0\<lparr>buffer_duration := 4 / 10\<rparr>) (2 / 10)"
    by simp
  from read_before_write_zero_fill [OF 1 3] show ?thesis
    unfolding 2 using 1 by (simp add: numeral_eq_Suc)
qed

text \<open>
  The claim that these reads are empty fails: with \<open>seconds = 0\<close> the copy is the whole
  buffer, with \<open>seconds = -0.2\<close> at 10 samples per second it has two samples, and a read
  of 0.2 seconds from a monitor just constructed has two zeros.
\<close>

theorem read_recent_empty_counterexample:
  "get_recent_audio (monitor_with 10 10 [1, 2, 3, 4] 0) 0 = Inr [1, 2, 3, 4]
   \<and> get_recent_audio (monitor_with 10 10 [1, 2, 3, 4] 0) (- (2 / 10)) = Inr [3, 4]
   \<and> new_monitor 1 (4 / 10) 5 (2 / 10) 10
        = Inr (monitor_with 10 (2 / 10) [0, 0, 0, 0] 0\<lparr>buffer_duration := 4 / 10\<rparr>)
   \<and> get_recent_audio (monitor_with 10 (2 / 10) [0, 0, 0, 0] 0\<lparr>buffer_duration := 4 / 10\<rparr>) (2 / 10)
        = Inr [0, 0]"
  by (simp add: get_recent_audio_def samples_needed_of_def copy_out_def monitor_with_def
      new_monitor_def Let_def numeral_eq_Suc
      py_int_def py_slice_def slice_bounds_def clamp_index_def)

subsection \<open>A block longer than the buffer\<close>

lemma np_set_slice_head_raises:
  "length B < j \<Longrightarrow> 0 < length B \<Longrightarrow> length v = j \<Longrightarrow>
   np_set_slice B None (Some (int j)) v = Inl ValueError"
  by (auto simp: np_set_slice_def slice_bounds_def clamp_index_def min_def Let_def)

lemma write_buffer_raises:
  assumes N: "buffer_size s = int N" and w: "write_index s = int w"
    and B: "length (audio_buffer s) = N"
    and big: "2 * N < w + length d" and wN: "w < N"
  shows "write_buffer s d (int (length d)) =
     Inl (ValueError, s\<lparr>audio_buffer := take w (audio_buffer s) @ take (N - w) d\<rparr>)"
proof -
  have fp: "int N - int w = int (N - w)" using wN by simp
  have e: "int w + int (length d) - int N = int (w + length d - N)" using big by simp
  have 1: "np_set_slice (audio_buffer s) (Some (int w)) None (take (N - w) d)
        = Inr (take w (audio_buffer s) @ take (N - w) d)"
    using B wN big by (intro np_set_slice_tail) auto
  have 2: "np_set_slice (take w (audio_buffer s) @ take (N - w) d) None
              (Some (int w + int (length d) - int N)) (drop (N - w) d)
     = Inl ValueError"
    unfolding e using B wN big by (intro np_set_slice_head_raises) auto
  have gt: "\<not> int w + int (length d) \<le> int N" using big by linarith
  show ?thesis
    unfolding write_buffer_def Let_def N w fp py_slice_to py_slice_from 1
    using gt by (simp add: 2)
qed

lemma drop_take_drop: "k \<le> n \<Longrightarrow> drop k (take n xs) @ drop n xs = drop k xs"
  by (induction xs arbitrary: k n) (auto simp: drop_Cons take_Cons split: nat.splits)

lemma write_buffer_overlong_ring:
  assumes N: "buffer_size s = int N" and w: "write_index s = int w"
    and B: "length (audio_buffer s) = N" and wN: "w < N"
    and gt: "N < length d" and le2: "w + length d \<le> 2 * N"
  shows "\<exists>s'. write_buffer s d (int (length d)) = Inr s' \<and> buffer_ok s'
           \<and> buffer_size s' = buffer_size s
           \<and> write_index s' = (write_index s + int (length d)) mod buffer_size s
           \<and> total_frames s' = total_frames s + int (length d)
           \<and> ring_view s' = drop (length d - N) d"
proof -
  define a where "a = w + length d - N"
  define P where "P = drop (N - w) d"
  define Q where "Q = drop a (take w (audio_buffer s) @ take (N - w) d)"
  define s' where "s' = s\<lparr>audio_buffer := P @ Q,
      write_index := (int w + int (length d)) mod int N,
      total_frames := total_frames s + int (length d)\<rparr>"
  have gt': "N < w + length d" using gt by simp
  have wb: "write_buffer s d (int (length d)) = Inr s'"
    unfolding s'_def P_def Q_def a_def by (rule write_buffer_wrap [OF N w B gt' le2 wN])
  have a: "w \<le> a" "a \<le> N" "a + N = w + length d" "a - w = length d - N"
    using le2 gt wN by (simp_all add: a_def)
  have lP: "length P = a" using a wN by (simp add: P_def)
  have Q: "Q = drop (a - w) (take (N - w) d)"
    using a B wN by (simp add: Q_def)
  have lQ: "length Q = N - a" using a gt wN by (simp add: Q)
  have "a - w \<le> N - w" using a by linarith
  then have "Q @ P = drop (a - w) d"
    unfolding Q P_def by (rule drop_take_drop)
  then have QP: "Q @ P = drop (length d - N) d" by (simp add: a)
  have cur: "(int w + int (length d)) mod int N = int (a mod N)"
  proof -
    have "int w + int (length d) = int a + int N" using a(3) by linarith
    then show ?thesis by (simp add: zmod_int)
  qed
  have ring: "ring_view s' = drop (length d - N) d"
  proof (cases "a = N")
    case True
    then have "Q = []" using lQ by simp
    then show ?thesis using QP True by (simp add: ring_view_def s'_def cur)
  next
    case False
    then have "a mod N = a" using a by simp
    then show ?thesis using QP lP by (simp add: ring_view_def s'_def cur)
  qed
  have ok: "buffer_ok s'"
    using lP lQ a wN by (simp add: buffer_ok_def s'_def cur N del: of_nat_add)
  have "buffer_size s' = buffer_size s"
    "write_index s' = (write_index s + int (length d)) mod buffer_size s"
    "total_frames s' = total_frames s + int (length d)"
    by (simp_all add: s'_def N w)
  then show ?thesis using wb ok ring by blast
qed

text \<open>
  Claim C7, as the code has it. \<^verbatim>\<open>audio_callback\<close> neither clamps nor truncates a block
  of more than \<open>capacity\<close> frames. When \<open>write_index + frames\<close> is at most twice the
  capacity the two slice assignments fit: the callback returns, and the buffer holds,
  oldest first, the last \<open>capacity\<close> samples of the block. When it is more, the second
  assignment raises \<^verbatim>\<open>ValueError\<close> after the first one has overwritten the buffer from
  the write index to its end, with the write index and the frame count not advanced. In
  both cases the buffer keeps its \<open>capacity\<close> samples and the write index stays in
  \<open>[0, capacity)\<close>.
\<close>

theorem overlong_write_not_clamped:
  assumes "buffer_ok s"
    and "mono_data_of (channels s) indata = Inr m"
    and "nat (buffer_size s) < length indata"
  shows "(write_index s + int (length indata) \<le> 2 * buffer_size s \<longrightarrow>
            (\<exists>s'. audio_callback s indata (int (length indata)) False = Inr s'
               \<and> buffer_ok s' \<and> buffer_size s' = buffer_size s
               \<and> write_index s' = (write_index s + int (length indata)) mod buffer_size s
               \<and> total_frames s' = total_frames s + int (length indata)
               \<and> ring_view s' = drop (length m - nat (buffer_size s)) m))
       \<and> (2 * buffer_size s < write_index s + int (length indata) \<longrightarrow>
            (\<exists>s'. audio_callback s indata (int (length indata)) False = Inl (ValueError, s')
               \<and> s' = s\<lparr>audio_buffer := take (nat (write_index s)) (audio_buffer s)
                          @ take (nat (buffer_size s - write_index s)) m\<rparr>
               \<and> buffer_ok s'))"
proof -
  from assms(1) obtain N w where N: "buffer_size s = int N" and w: "write_index s = int w"
    and B: "length (audio_buffer s) = N" and wN: "w < N"
    by (rule buffer_ok_nat)
  have lm: "length m = length indata" using assms(2) by (rule mono_data_length)
  have gt: "N < length m" using assms(3) N lm by simp
  have cb: "audio_callback s indata (int (length indata)) False
              = write_buffer s m (int (length m))"
    by (simp add: audio_callback_def assms(2) lm)
  have a: ?thesis if le: "w + length m \<le> 2 * N"
  proof -
    have "\<not> 2 * buffer_size s < write_index s + int (length indata)"
      using le by (simp add: N w lm flip: of_nat_add)
    then show ?thesis
      using write_buffer_overlong_ring [OF N w B wN gt le] by (simp add: cb N lm)
  qed
  have b: ?thesis if big: "2 * N < w + length m"
  proof -
    have n: "\<not> write_index s + int (length indata) \<le> 2 * buffer_size s"
      using big by (simp add: N w lm flip: of_nat_add)
    have fp: "nat (int N - int w) = N - w" by simp
    have "buffer_ok (s\<lparr>audio_buffer := take w (audio_buffer s) @ take (N - w) m\<rparr>)"
      using B wN gt by (simp add: buffer_ok_def N w)
    then show ?thesis
      using write_buffer_raises [OF N w B big wN] n by (simp add: cb N w fp)
  qed
  show ?thesis
  proof (cases "w + length m \<le> 2 * N")
    case True
    then show ?thesis by (rule a)
  next
    case False
    then have "2 * N < w + length m" by simp
    then show ?thesis by (rule b)
  qed
qed

theorem overlong_write_not_clamped_witness:
  "(\<exists>s'. audio_callback (monitor_with 10 10 [0, 0, 0, 0] 1) [[1], [2], [3], [4], [5]] 5 False = Inr s'
       \<and> write_index s' = 2 \<and> ring_view s' = [2, 3, 4, 5])
   \<and> audio_callback (monitor_with 10 10 [0, 0, 0, 0] 0)
        [[1], [2], [3], [4], [5], [6], [7], [8], [9]] 9 False
      = Inl (ValueError, monitor_with 10 10 [1, 2, 3, 4] 0)"
proof -
  have ok1: "buffer_ok (monitor_with 10 10 [0, 0, 0, 0] 1)"
    and ok0: "buffer_ok (monitor_with 10 10 [0, 0, 0, 0] 0)"
    by (simp_all add: buffer_ok_def monitor_with_def)
  have m1: "mono_data_of (channels (monitor_with 10 10 [0, 0, 0, 0] 1))
              [[1], [2], [3], [4], [5]] = Inr [1, 2, 3, 4, 5]"
    by (simp add: monitor_with_def mono_data_of_def column_def)
  have m0: "mono_data_of (channels (monitor_with 10 10 [0, 0, 0, 0] 0))
              [[1], [2], [3], [4], [5], [6], [7], [8], [9]] = Inr [1, 2, 3, 4, 5, 6, 7, 8, 9]"
    by (simp add: monitor_with_def mono_data_of_def column_def)
  have l1: "nat (buffer_size (monitor_with 10 10 [0, 0, 0, 0] 1))
              < length [[1::real], [2], [3], [4], [5]]"
    and l0: "nat (buffer_size (monitor_with 10 10 [0, 0, 0, 0] 0))
              < length [[1::real], [2], [3], [4], [5], [6], [7], [8], [9]]"
    by (simp_all add: monitor_with_def)
  show ?thesis
    using overlong_write_not_clamped [OF ok1 m1 l1] overlong_write_not_clamped [OF ok0 m0 l0]
    by (simp add: monitor_with_def) blast
qed

text \<open>
  The claim that every such write is handled by a clamping or truncating policy fails:
  with capacity 4 and write index 2, a block of 7 frames raises \<^verbatim>\<open>ValueError\<close>, and the
  two newest samples of the buffer are replaced by the first two of the block while the
  write index still marks them as the oldest.
\<close>

theorem overlong_write_raises_counterexample:
  "audio_callback (monitor_with 10 10 [5, 6, 7, 8] 2)
      [[1], [2], [3], [4], [5], [6], [7]] 7 False
     = Inl (ValueError, monitor_with 10 10 [5, 6, 1, 2] 2)
   \<and> ring_view (monitor_with 10 10 [5, 6, 7, 8] 2) = [7, 8, 5, 6]
   \<and> ring_view (monitor_with 10 10 [5, 6, 1, 2] 2) = [1, 2, 5, 6]"
  by (simp add: audio_callback_def write_buffer_def mono_data_of_def column_def
      monitor_with_def ring_view_def Let_def
      np_set_slice_def py_slice_def slice_bounds_def clamp_index_def)

section \<open>Properties of the analysis\<close>

subsection \<open>Sample rates below ten\<close>

lemma py_int_tenth:
  "py_int (real_of_int n * (1 / 10)) = (if 0 \<le> n then n div 10 else - ((- n) div 10))"
proof -
  have f: "\<lfloor>real_of_int k / 10\<rfloor> = k div 10" for k :: int
    using floor_divide_of_int_eq [of k 10, where ?'a = real] by simp
  have "\<lceil>real_of_int n / 10\<rceil> = - \<lfloor>real_of_int (- n) / 10\<rfloor>"
    by (simp add: ceiling_def)
  then have c: "\<lceil>real_of_int n / 10\<rceil> = - ((- n) div 10)"
    by (simp only: f)
  show ?thesis
    using f [of n] c by (simp add: py_int_def)
qed

lemma chunk_size_small:
  "- 10 < sample_rate s \<Longrightarrow> sample_rate s < 10 \<Longrightarrow> chunk_size_of s = 0"
  unfolding chunk_size_of_def py_int_tenth by simp

lemma chunk_size_not_positive:
  "sample_rate s < 10 \<Longrightarrow> chunk_size_of s \<le> 0"
  unfolding chunk_size_of_def py_int_tenth by (simp add: div_int_pos_iff)

lemma py_range_negative_step:
  assumes "step < 0" "0 \<le> stop"
  shows "py_range 0 stop step = Inr []"
proof -
  have "(0 - stop - step - 1) div (- step) \<le> 0"
  proof -
    have lt: "0 - stop - step - 1 < - step" and pos: "0 < - step"
      using assms by simp_all
    show ?thesis
    proof (cases "0 - stop - step - 1 < 0")
      case True
      then have "(0 - stop - step - 1) div (- step) < 0"
        using pos by (simp only: pos_imp_zdiv_neg_iff)
      then show ?thesis by simp
    next
      case False
      then have "(0 - stop - step - 1) div (- step) = 0"
        using lt by (intro div_pos_pos_trivial) simp_all
      then show ?thesis by simp
    qed
  qed
  then show ?thesis using assms by (simp add: py_range_def)
qed

lemma chunk_db_values_not_positive:
  "c \<le> 0 \<Longrightarrow> chunk_db_values samples c = Inl ValueError \<or> chunk_db_values samples c = Inr []"
  using py_range_negative_step [of c "int (length samples)"]
  by (cases "c = 0") (simp_all add: chunk_db_values_def py_range_def)

lemma copy_out_nonempty:
  assumes "buffer_ok s" "0 \<le> st" "st < buffer_size s"
  shows "copy_out s st \<noteq> []"
proof -
  from assms(1) obtain N w where N: "buffer_size s = int N" and w: "write_index s = int w"
    and B: "length (audio_buffer s) = N" and wN: "w < N"
    by (rule buffer_ok_nat)
  define a where "a = nat st"
  have a: "st = int a" "a < N"
    using assms(2,3) N by (simp_all add: a_def)
  have "0 < length (copy_out s (int a))"
  proof (cases "a < w")
    case True
    then have "copy_out s (int a) = take (w - a) (drop a (audio_buffer s))"
      using wN B by (simp add: copy_out_def w py_slice_both)
    then show ?thesis using True wN B by simp
  next
    case False
    then have "copy_out s (int a) = drop a (audio_buffer s) @ take w (audio_buffer s)"
      by (simp add: copy_out_def w py_slice_from py_slice_to)
    then show ?thesis using a(2) B by simp
  qed
  then show ?thesis by (simp add: a(1))
qed

lemma get_recent_audio_nonempty:
  assumes "buffer_ok s"
  shows "\<exists>xs. get_recent_audio s seconds = Inr xs \<and> xs \<noteq> []"
proof -
  have "0 < buffer_size s" using assms by (simp add: buffer_ok_def)
  then show ?thesis
    using copy_out_nonempty [OF assms, of "(write_index s - samples_needed_of s seconds) mod buffer_size s"]
    by (simp add: get_recent_audio_def Let_def)
qed

text \<open>
  Claim C10. At every sample rate below 10 \<^verbatim>\<open>analyze_audio\<close> returns \<^verbatim>\<open>None\<close>. At the
  rates between \<open>-10\<close> and 10, which include every rate a device can have below 10, the
  chunk size \<open>int(sample_rate * 0.1)\<close> is zero, and on a buffer that is set up the body
  of the \<^verbatim>\<open>try\<close> raises the \<^verbatim>\<open>ValueError\<close> of \<^verbatim>\<open>range\<close> with a zero step, which the
  handler turns into \<^verbatim>\<open>None\<close>.
\<close>

theorem low_sample_rate_no_statistics:
  assumes "sample_rate s < 10"
  shows "analyze_audio s = None
       \<and> (- 10 < sample_rate s \<longrightarrow>
            chunk_size_of s = 0 \<and> (buffer_ok s \<longrightarrow> analyze_audio_try s = Inl ValueError))"
proof -
  have c: "chunk_size_of s \<le> 0" using assms by (rule chunk_size_not_positive)
  have none: "analyze_audio s = None"
  proof (cases "get_recent_audio s (analysis_window s)")
    case (Inl e)
    then show ?thesis by (simp add: analyze_audio_def analyze_audio_try_def)
  next
    case (Inr samples)
    then show ?thesis
      using chunk_db_values_not_positive [OF c, of samples]
      by (auto simp: analyze_audio_def analyze_audio_try_def)
  qed
  have raises: "analyze_audio_try s = Inl ValueError"
    if "chunk_size_of s = 0" "buffer_ok s"
  proof -
    from get_recent_audio_nonempty [OF that(2)] obtain xs where
      "get_recent_audio s (analysis_window s) = Inr xs" "xs \<noteq> []" by blast
    then show ?thesis
      by (simp add: analyze_audio_try_def that(1) chunk_db_values_def py_range_def)
  qed
  show ?thesis
    using none raises chunk_size_small [of s] assms by blast
qed

theorem low_sample_rate_no_statistics_witness:
  "sample_rate (monitor_with 8 10 [1, - 1, 1, - 1] 0) < 10
   \<and> chunk_size_of (monitor_with 8 10 [1, - 1, 1, - 1] 0) = 0
   \<and> analyze_audio_try (monitor_with 8 10 [1, - 1, 1, - 1] 0) = Inl ValueError
   \<and> analyze_audio (monitor_with 8 10 [1, - 1, 1, - 1] 0) = None"
proof -
  have 1: "sample_rate (monitor_with 8 10 [1, - 1, 1, - 1] 0) < 10"
    and 2: "- 10 < sample_rate (monitor_with 8 10 [1, - 1, 1, - 1] 0)"
    and 3: "buffer_ok (monitor_with 8 10 [1, - 1, 1, - 1] 0)"
    by (simp_all add: monitor_with_def buffer_ok_def)
  from low_sample_rate_no_statistics [OF 1] 1 2 3 show ?thesis
    by simp
qed

subsection \<open>The chunks of the window\<close>

lemma py_slice_nat:
  "py_slice xs (Some (int i)) (Some (int j)) = take (j - i) (drop i xs)"
  by (auto simp: py_slice_def slice_bounds_def clamp_index_def min_def)

lemma foldl_append_if:
  "foldl (\<lambda>acc i. if P i then acc @ [h i] else acc) acc0 is = acc0 @ map h (filter P is)"
  by (induction "is" arbitrary: acc0) simp_all

lemma concat_chunks_take:
  "concat (map (chunk_at xs c) [0..<j]) = take (j * c) xs"
proof (induction j)
  case 0
  then show ?case by simp
next
  case (Suc j)
  have "concat (map (chunk_at xs c) [0..<Suc j])
          = concat (map (chunk_at xs c) [0..<j]) @ chunk_at xs c j"
    by simp
  also have "\<dots> = take (j * c) xs @ take c (drop (j * c) xs)"
    by (simp only: Suc chunk_at_def)
  also have "\<dots> = take (j * c + c) xs"
    by (simp add: take_add)
  finally show ?case by (simp add: add.commute)
qed

lemma py_range_positive_step:
  assumes "0 < c"
  shows "py_range 0 (int n) (int c) = Inr (map (\<lambda>k. int (k * c)) [0..<(n + c - 1) div c])"
proof -
  have e: "int n - 0 + int c - 1 = int (n + c - 1)" using assms by linarith
  have "nat ((int n - 0 + int c - 1) div int c) = (n + c - 1) div c"
    unfolding e by (simp only: zdiv_int [symmetric] nat_int)
  then show ?thesis
    unfolding py_range_def using assms by (simp del: of_nat_add of_nat_diff)
qed

lemma chunk_db_values_positive:
  assumes "0 < c"
  shows "chunk_db_values samples (int c) =
     Inr (map calculate_db_from_samples
           (filter (\<lambda>ch. int c div 2 \<le> int (length ch))
              (map (chunk_at samples c) [0..<(length samples + c - 1) div c])))"
proof -
  have sl: "py_slice samples (Some (int (k * c))) (Some (int (k * c) + int c)) = chunk_at samples c k" for k
    using py_slice_nat [of samples "k * c" "k * c + c"] by (simp add: chunk_at_def)
  show ?thesis
    unfolding chunk_db_values_def py_range_positive_step [OF assms] Let_def
    by (simp add: foldl_append_if filter_map comp_def sl del: of_nat_mult of_nat_add)
qed


lemma chunk_count_bounds:
  assumes "0 < c"
  shows "n \<le> (n + c - 1) div c * c"
    and "k < (n + c - 1) div c \<Longrightarrow> k * c < n"
    and "Suc k < (n + c - 1) div c \<Longrightarrow> k * c + c < n"
proof -
  have "(n + c - 1) div c < Suc ((n + c - 1) div c)" by simp
  then have "n + c - 1 < Suc ((n + c - 1) div c) * c"
    using assms by (simp only: div_less_iff_less_mult)
  then show "n \<le> (n + c - 1) div c * c" using assms by simp
next
  assume "k < (n + c - 1) div c"
  then have "Suc k \<le> (n + c - 1) div c" by simp
  then have "Suc k * c \<le> n + c - 1"
    using assms by (simp only: less_eq_div_iff_mult_less_eq)
  then show "k * c < n" using assms by simp
next
  assume "Suc k < (n + c - 1) div c"
  then have "Suc (Suc k) \<le> (n + c - 1) div c" by simp
  then have "Suc (Suc k) * c \<le> n + c - 1"
    using assms by (simp only: less_eq_div_iff_mult_less_eq)
  then show "k * c + c < n" using assms by simp
qed

lemma butlast_upt_zero: "butlast [0..<m] = [0..<m - 1]"
  by (cases m) simp_all

lemma chunks_shape:
  fixes xs :: "'a list" and c :: nat
  assumes "0 < c"
  defines "chunks \<equiv> map (chunk_at xs c) [0..<(length xs + c - 1) div c]"
  shows "concat chunks = xs"
    and "\<forall>ch \<in> set (butlast chunks). length ch = c"
    and "chunks \<noteq> [] \<longrightarrow> last chunks \<noteq> [] \<and> length (last chunks) \<le> c"
proof -
  let ?m = "(length xs + c - 1) div c"
  show "concat chunks = xs"
    using chunk_count_bounds(1) [OF assms(1), of "length xs"]
    by (simp add: chunks_def concat_chunks_take)
  show "\<forall>ch \<in> set (butlast chunks). length ch = c"
  proof
    fix ch assume "ch \<in> set (butlast chunks)"
    then obtain k where k: "k < ?m - 1" "ch = chunk_at xs c k"
      by (auto simp: chunks_def map_butlast [symmetric] butlast_upt_zero)
    then have "Suc k < ?m" by simp
    from chunk_count_bounds(3) [OF assms(1) this] show "length ch = c"
      by (simp add: k(2) chunk_at_def)
  qed
  show "chunks \<noteq> [] \<longrightarrow> last chunks \<noteq> [] \<and> length (last chunks) \<le> c"
  proof
    assume "chunks \<noteq> []"
    then have m: "0 < ?m" by (simp add: chunks_def)
    then have l: "last chunks = chunk_at xs c (?m - 1)"
      by (simp add: chunks_def last_map)
    have "?m - 1 < ?m" using m by simp
    from chunk_count_bounds(2) [OF assms(1) this]
    show "last chunks \<noteq> [] \<and> length (last chunks) \<le> c"
      using assms(1) by (simp add: l chunk_at_def)
  qed
qed


lemma chunk_size_positive:
  assumes "0 < chunk_size_of s"
  shows "10 \<le> sample_rate s" and "chunk_size_of s = sample_rate s div 10"
proof -
  have c: "chunk_size_of s
      = (if 0 \<le> sample_rate s then sample_rate s div 10 else - ((- sample_rate s) div 10))"
    unfolding chunk_size_of_def py_int_tenth ..
  have nn: "0 \<le> sample_rate s"
  proof (rule ccontr)
    assume "\<not> 0 \<le> sample_rate s"
    then have "chunk_size_of s \<le> 0"
      unfolding c by (simp add: div_int_pos_iff)
    then show False using assms by simp
  qed
  then show "chunk_size_of s = sample_rate s div 10" by (simp add: c)
  then show "10 \<le> sample_rate s" using assms by linarith
qed

lemma analyze_audio_positive:
  assumes g: "get_recent_audio s (analysis_window s) = Inr samples"
    and c: "chunk_size_of s = int c" "0 < c"
  shows "analyze_audio s =
     (let dbs = map calculate_db_from_samples
                  (filter (\<lambda>ch. chunk_size_of s div 2 \<le> int (length ch))
                     (map (chunk_at samples c) [0..<(length samples + c - 1) div c]))
      in if samples = [] \<or> dbs = [] then None
         else Some \<lparr>min_db = Min (set dbs), max_db = Max (set dbs),
                     avg_db = calculate_db_from_samples samples,
                     duration = real (length samples) / real_of_int (sample_rate s),
                     overflows = overflow_count s\<rparr>)"
proof -
  have "0 < chunk_size_of s" using c by simp
  then have "sample_rate s \<noteq> 0" using chunk_size_positive(1) [of s] by linarith
  then show ?thesis
    unfolding analyze_audio_def analyze_audio_try_def g c(1) chunk_db_values_positive [OF c(2)]
    by (simp add: Let_def)
qed

subsection \<open>Two concrete windows\<close>

lemma calculate_db_zeros: "calculate_db_from_samples (replicate n 0) = - 80"
  by (simp add: calculate_db_from_samples_def rms_of_zeros)

lemma calculate_db_one_minus_one: "calculate_db_from_samples [1, - 1] = 0"
  by (simp add: calculate_db_from_samples_def rms_of_one_minus_one)

lemma calculate_db_constant_pair: "calculate_db_from_samples [x, x] = - 80"
  by (simp add: calculate_db_from_samples_def rms_of_def centered_def np_mean_def)

lemma calculate_db_square_wave: "calculate_db_from_samples [1, 1, - 1, - 1] = 0"
  by (simp add: calculate_db_from_samples_def rms_of_def centered_def np_mean_def)

lemma example_window_5_2:
  "get_recent_audio (monitor_with 50 1 [0, 0, 0, 0, 0, 1, - 1] 0)
      (analysis_window (monitor_with 50 1 [0, 0, 0, 0, 0, 1, - 1] 0))
     = Inr [0, 0, 0, 0, 0, 1, - 1]"
  by (simp add: get_recent_audio_def samples_needed_of_def copy_out_def monitor_with_def
      py_int_def py_slice_def slice_bounds_def clamp_index_def)

lemma example_chunk_size_5: "chunk_size_of (monitor_with 50 1 [0, 0, 0, 0, 0, 1, - 1] 0) = 5"
  by (simp add: chunk_size_of_def monitor_with_def py_int_def)

lemma example_db_values_5_2:
  "chunk_db_values [0, 0, 0, 0, 0, 1, - 1] 5 = Inr [- 80, 0]"
proof -
  have z: "calculate_db_from_samples [0, 0, 0, 0, 0] = - 80"
    using calculate_db_zeros [of 5] by (simp add: numeral_eq_Suc)
  have u: "[0..<2] = [0, Suc 0]"
    by (simp add: upt_rec)
  have c0: "chunk_at [0, 0, 0, 0, 0, 1, - 1 :: real] 5 0 = [0, 0, 0, 0, 0]"
    and c1: "chunk_at [0, 0, 0, 0, 0, 1, - 1 :: real] 5 (Suc 0) = [1, - 1]"
    by (simp_all add: chunk_at_def)
  show ?thesis
    using chunk_db_values_positive [of 5 "[0, 0, 0, 0, 0, 1, - 1]"]
    by (simp add: u c0 c1 z calculate_db_one_minus_one)
qed

lemma example_window_square:
  "get_recent_audio (monitor_with 20 1 [1, 1, - 1, - 1] 0)
      (analysis_window (monitor_with 20 1 [1, 1, - 1, - 1] 0))
     = Inr [1, 1, - 1, - 1]"
  by (simp add: get_recent_audio_def samples_needed_of_def copy_out_def monitor_with_def
      py_int_def py_slice_def slice_bounds_def clamp_index_def)

lemma example_chunk_size_2: "chunk_size_of (monitor_with 20 1 [1, 1, - 1, - 1] 0) = 2"
  by (simp add: chunk_size_of_def monitor_with_def py_int_def)

lemma example_db_values_square:
  "chunk_db_values [1, 1, - 1, - 1] 2 = Inr [- 80, - 80]"
proof -
  have u: "[0..<(4 + 2 - 1) div 2] = [0, 1]"
    by (simp add: upt_rec)
  show ?thesis
    using chunk_db_values_positive [of 2 "[1, 1, - 1, - 1]"]
    by (simp add: u chunk_at_def calculate_db_constant_pair)
qed

lemma example_analyze_square:
  "analyze_audio (monitor_with 20 1 [1, 1, - 1, - 1] 0)
     = Some \<lparr>min_db = - 80, max_db = - 80, avg_db = 0, duration = 4 / 20, overflows = 0\<rparr>"
  unfolding analyze_audio_def analyze_audio_try_def example_window_square example_chunk_size_2
  by (simp add: example_db_values_square calculate_db_square_wave monitor_with_def)

lemma example_analyze_5_2:
  "analyze_audio (monitor_with 50 1 [0, 0, 0, 0, 0, 1, - 1] 0)
     = Some \<lparr>min_db = - 80, max_db = 0,
             avg_db = calculate_db_from_samples [0, 0, 0, 0, 0, 1, - 1],
             duration = 7 / 50, overflows = 0\<rparr>"
  unfolding analyze_audio_def analyze_audio_try_def example_window_5_2 example_chunk_size_5
  by (simp add: example_db_values_5_2 monitor_with_def)

subsection \<open>Chunking and the statistics\<close>

text \<open>
  Claim C5, as the code has it. The chunk size is \<open>int(sample_rate * 0.1)\<close>, a
  truncation (\<open>sample_rate div 10\<close>), not a rounding. When it is positive the loop cuts
  the window into consecutive chunks of that size, only the last of which may be shorter
  (and is not empty); a chunk contributes its decibel value exactly when its length is at
  least \<open>chunk_size // 2\<close>, the floor of half the chunk size; \<^verbatim>\<open>min_db\<close> and \<^verbatim>\<open>max_db\<close>
  are the least and greatest of these values; and the result is \<^verbatim>\<open>None\<close> when the
  window is empty or no chunk contributes.
\<close>

theorem analyze_chunks:
  assumes "get_recent_audio s (analysis_window s) = Inr samples"
    and "0 < chunk_size_of s"
  shows "chunk_size_of s = sample_rate s div 10
       \<and> (\<exists>chunks.
            concat chunks = samples
          \<and> (\<forall>ch \<in> set (butlast chunks). int (length ch) = chunk_size_of s)
          \<and> (chunks \<noteq> [] \<longrightarrow>
                last chunks \<noteq> [] \<and> int (length (last chunks)) \<le> chunk_size_of s)
          \<and> chunk_db_values samples (chunk_size_of s)
              = Inr (map calculate_db_from_samples
                      (filter (\<lambda>ch. chunk_size_of s div 2 \<le> int (length ch)) chunks))
          \<and> (samples = [] \<or> filter (\<lambda>ch. chunk_size_of s div 2 \<le> int (length ch)) chunks = []
                \<longrightarrow> analyze_audio s = None)
          \<and> (samples \<noteq> [] \<and> filter (\<lambda>ch. chunk_size_of s div 2 \<le> int (length ch)) chunks \<noteq> []
                \<longrightarrow> (\<exists>st. analyze_audio s = Some st
                      \<and> min_db st = Min (set (map calculate_db_from_samples
                           (filter (\<lambda>ch. chunk_size_of s div 2 \<le> int (length ch)) chunks)))
                      \<and> max_db st = Max (set (map calculate_db_from_samples
                           (filter (\<lambda>ch. chunk_size_of s div 2 \<le> int (length ch)) chunks))))))"
proof -
  define c where "c = nat (chunk_size_of s)"
  have c: "chunk_size_of s = int c" "0 < c"
    using assms(2) by (simp_all add: c_def)
  define chunks where
    "chunks = map (chunk_at samples c) [0..<(length samples + c - 1) div c]"
  note shape = chunks_shape [OF c(2), of samples, folded chunks_def]
  have 1: "concat chunks = samples" by (rule shape(1))
  have 2: "\<forall>ch \<in> set (butlast chunks). int (length ch) = chunk_size_of s"
    using shape(2) by (simp add: c(1))
  have 3: "chunks \<noteq> [] \<longrightarrow>
             last chunks \<noteq> [] \<and> int (length (last chunks)) \<le> chunk_size_of s"
    using shape(3) by (simp add: c(1))
  have 4: "chunk_db_values samples (chunk_size_of s)
              = Inr (map calculate_db_from_samples
                      (filter (\<lambda>ch. chunk_size_of s div 2 \<le> int (length ch)) chunks))"
    unfolding c(1) chunks_def by (rule chunk_db_values_positive [OF c(2)])
  note a = analyze_audio_positive [OF assms(1) c, folded chunks_def]
  have 5: "samples = [] \<or> filter (\<lambda>ch. chunk_size_of s div 2 \<le> int (length ch)) chunks = []
                \<longrightarrow> analyze_audio s = None"
    unfolding a by (auto simp: Let_def)
  have 6: "samples \<noteq> [] \<and> filter (\<lambda>ch. chunk_size_of s div 2 \<le> int (length ch)) chunks \<noteq> []
                \<longrightarrow> (\<exists>st. analyze_audio s = Some st
                      \<and> min_db st = Min (set (map calculate_db_from_samples
                           (filter (\<lambda>ch. chunk_size_of s div 2 \<le> int (length ch)) chunks)))
                      \<and> max_db st = Max (set (map calculate_db_from_samples
                           (filter (\<lambda>ch. chunk_size_of s div 2 \<le> int (length ch)) chunks))))"
    unfolding a by (simp add: Let_def)
  have 0: "chunk_size_of s = sample_rate s div 10"
    using assms(2) by (rule chunk_size_positive(2))
  from 1 2 3 4 5 6 have "\<exists>chunks.
            concat chunks = samples
          \<and> (\<forall>ch \<in> set (butlast chunks). int (length ch) = chunk_size_of s)
          \<and> (chunks \<noteq> [] \<longrightarrow>
                last chunks \<noteq> [] \<and> int (length (last chunks)) \<le> chunk_size_of s)
          \<and> chunk_db_values samples (chunk_size_of s)
              = Inr (map calculate_db_from_samples
                      (filter (\<lambda>ch. chunk_size_of s div 2 \<le> int (length ch)) chunks))
          \<and> (samples = [] \<or> filter (\<lambda>ch. chunk_size_of s div 2 \<le> int (length ch)) chunks = []
                \<longrightarrow> analyze_audio s = None)
          \<and> (samples \<noteq> [] \<and> filter (\<lambda>ch. chunk_size_of s div 2 \<le> int (length ch)) chunks \<noteq> []
                \<longrightarrow> (\<exists>st. analyze_audio s = Some st
                      \<and> min_db st = Min (set (map calculate_db_from_samples
                           (filter (\<lambda>ch. chunk_size_of s div 2 \<le> int (length ch)) chunks)))
                      \<and> max_db st = Max (set (map calculate_db_from_samples
                           (filter (\<lambda>ch. chunk_size_of s div 2 \<le> int (length ch)) chunks)))))"
    by (intro exI [of _ chunks] conjI)
  with 0 show ?thesis by (rule conjI)
qed

theorem analyze_chunks_witness:
  "get_recent_audio (monitor_with 50 1 [0, 0, 0, 0, 0, 1, - 1] 0)
      (analysis_window (monitor_with 50 1 [0, 0, 0, 0, 0, 1, - 1] 0))
     = Inr [0, 0, 0, 0, 0, 1, - 1]
   \<and> 0 < chunk_size_of (monitor_with 50 1 [0, 0, 0, 0, 0, 1, - 1] 0)
   \<and> (\<exists>chunks. concat chunks = [0, 0, 0, 0, 0, 1, - 1]
         \<and> chunk_db_values [0, 0, 0, 0, 0, 1, - 1]
              (chunk_size_of (monitor_with 50 1 [0, 0, 0, 0, 0, 1, - 1] 0))
            = Inr (map calculate_db_from_samples
                    (filter (\<lambda>ch. chunk_size_of (monitor_with 50 1 [0, 0, 0, 0, 0, 1, - 1] 0) div 2
                                  \<le> int (length ch)) chunks)))"
proof -
  have p: "0 < chunk_size_of (monitor_with 50 1 [0, 0, 0, 0, 0, 1, - 1] 0)"
    by (simp add: example_chunk_size_5)
  from analyze_chunks [OF example_window_5_2 p] obtain chunks where
    "concat chunks = [0, 0, 0, 0, 0, 1, - 1]"
    "chunk_db_values [0, 0, 0, 0, 0, 1, - 1]
        (chunk_size_of (monitor_with 50 1 [0, 0, 0, 0, 0, 1, - 1] 0))
      = Inr (map calculate_db_from_samples
              (filter (\<lambda>ch. chunk_size_of (monitor_with 50 1 [0, 0, 0, 0, 0, 1, - 1] 0) div 2
                            \<le> int (length ch)) chunks))"
    by blast
  then show ?thesis
    using example_window_5_2 p by blast
qed

text \<open>
  The claim with \<open>round\<close> and with half the chunk length fails: at 18 samples per
  second the chunk size is 1 where rounding gives 2; at 50 samples per second (chunk
  size 5) a window of 7 samples ends in a chunk of 2 samples, fewer than half of 5, and
  that chunk still supplies \<^verbatim>\<open>max_db\<close>.
\<close>

theorem analyze_chunks_counterexample:
  "chunk_size_of (monitor_with 18 1 [0, 0] 0) = 1
   \<and> round (real_of_int (sample_rate (monitor_with 18 1 [0, 0] 0)) * (1 / 10)) = 2
   \<and> chunk_size_of (monitor_with 50 1 [0, 0, 0, 0, 0, 1, - 1] 0) = 5
   \<and> chunk_db_values [0, 0, 0, 0, 0, 1, - 1] 5 = Inr [- 80, 0]
   \<and> py_slice [0, 0, 0, 0, 0, 1, - 1 :: real] (Some 5) (Some (5 + 5)) = [1, - 1]
   \<and> \<not> 5 / 2 \<le> real (length [1, - 1 :: real])
   \<and> map_option max_db (analyze_audio (monitor_with 50 1 [0, 0, 0, 0, 0, 1, - 1] 0)) = Some 0"
proof -
  have 1: "chunk_size_of (monitor_with 18 1 [0, 0] 0) = 1"
    by (simp add: chunk_size_of_def monitor_with_def py_int_def)
  have 2: "round (real_of_int (sample_rate (monitor_with 18 1 [0, 0] 0)) * (1 / 10)) = 2"
    by (simp add: monitor_with_def round_def)
  have 3: "py_slice [0, 0, 0, 0, 0, 1, - 1 :: real] (Some 5) (Some (5 + 5)) = [1, - 1]"
    by (simp add: py_slice_def slice_bounds_def clamp_index_def)
  show ?thesis
    using 1 2 3 by (simp add: example_chunk_size_5 example_db_values_5_2 example_analyze_5_2)
qed

subsection \<open>The overall level\<close>

text \<open>
  Claim C4. For every non-empty window with at least one contributing chunk,
  \<^verbatim>\<open>analyze_audio\<close> returns statistics whose \<^verbatim>\<open>avg_db\<close> is the decibel value of the whole
  window, computed once, next to the least and greatest chunk values; \<^verbatim>\<open>avg_db\<close> is not
  the mean of the chunk values: there is a window where the two differ (a square wave
  whose chunks are each constant has chunk values of \<open>-80\<close> and an overall level of 0).
\<close>

theorem avg_db_whole_window:
  assumes "get_recent_audio s (analysis_window s) = Inr samples"
    and "samples \<noteq> []"
    and "chunk_db_values samples (chunk_size_of s) = Inr dbs"
    and "dbs \<noteq> []"
  shows "(\<exists>st. analyze_audio s = Some st
            \<and> avg_db st = calculate_db_from_samples samples
            \<and> min_db st = Min (set dbs) \<and> max_db st = Max (set dbs))
       \<and> (\<exists>s' st' samples' dbs'.
            get_recent_audio s' (analysis_window s') = Inr samples'
          \<and> chunk_db_values samples' (chunk_size_of s') = Inr dbs'
          \<and> analyze_audio s' = Some st'
          \<and> avg_db st' \<noteq> np_mean dbs')"
proof -
  have pos: "0 < chunk_size_of s"
  proof (rule ccontr)
    assume "\<not> 0 < chunk_size_of s"
    then have "chunk_size_of s \<le> 0" by simp
    from chunk_db_values_not_positive [OF this, of samples] show False
      using assms(3,4) by simp
  qed
  then have "sample_rate s \<noteq> 0"
    using chunk_size_positive(1) [of s] by linarith
  then have a: "\<exists>st. analyze_audio s = Some st
            \<and> avg_db st = calculate_db_from_samples samples
            \<and> min_db st = Min (set dbs) \<and> max_db st = Max (set dbs)"
    using assms by (simp add: analyze_audio_def analyze_audio_try_def)
  have "avg_db \<lparr>min_db = - 80, max_db = - 80, avg_db = 0, duration = 4 / 20, overflows = 0\<rparr>
          \<noteq> np_mean [- 80, - 80]"
    by (simp add: np_mean_def)
  then have b: "\<exists>s' st' samples' dbs'.
            get_recent_audio s' (analysis_window s') = Inr samples'
          \<and> chunk_db_values samples' (chunk_size_of s') = Inr dbs'
          \<and> analyze_audio s' = Some st'
          \<and> avg_db st' \<noteq> np_mean dbs'"
    using example_window_square example_db_values_square example_analyze_square
      example_chunk_size_2
    by (intro exI [of _ "monitor_with 20 1 [1, 1, - 1, - 1] 0"]
        exI [of _ "\<lparr>min_db = - 80, max_db = - 80, avg_db = 0, duration = 4 / 20, overflows = 0\<rparr>"]
        exI [of _ "[1, 1, - 1, - 1]"] exI [of _ "[- 80, - 80]"]) simp
  show ?thesis using a b by (rule conjI)
qed

theorem avg_db_whole_window_witness:
  "get_recent_audio (monitor_with 20 1 [1, 1, - 1, - 1] 0)
      (analysis_window (monitor_with 20 1 [1, 1, - 1, - 1] 0)) = Inr [1, 1, - 1, - 1]
   \<and> chunk_db_values [1, 1, - 1, - 1] (chunk_size_of (monitor_with 20 1 [1, 1, - 1, - 1] 0))
       = Inr [- 80, - 80]
   \<and> np_mean [- 80, - 80] = - 80
   \<and> (\<exists>st. analyze_audio (monitor_with 20 1 [1, 1, - 1, - 1] 0) = Some st \<and> avg_db st = 0)"
proof -
  have 3: "chunk_db_values [1, 1, - 1, - 1] (chunk_size_of (monitor_with 20 1 [1, 1, - 1, - 1] 0))
       = Inr [- 80, - 80]"
    by (simp add: example_chunk_size_2 example_db_values_square)
  have 2: "[1, 1, - 1, - 1 :: real] \<noteq> []" and 4: "[- 80, - 80 :: real] \<noteq> []"
    by simp_all
  from avg_db_whole_window [OF example_window_square 2 3 4] obtain st where
    "analyze_audio (monitor_with 20 1 [1, 1, - 1, - 1] 0) = Some st"
    "avg_db st = calculate_db_from_samples [1, 1, - 1, - 1]"
    by blast
  then have "\<exists>st. analyze_audio (monitor_with 20 1 [1, 1, - 1, - 1] 0) = Some st \<and> avg_db st = 0"
    by (simp add: calculate_db_square_wave)
  then show ?thesis
    using example_window_square 3 by (simp add: np_mean_def)
qed

section \<open>Properties of the processing loop\<close>

lemma write_buffer_schedule:
  assumes "write_buffer s d f = Inl (e, s1) \<or> write_buffer s d f = Inr s1"
  shows "ready_to_publish s1 = ready_to_publish s
       \<and> stream_start_time s1 = stream_start_time s
       \<and> analysis_window s1 = analysis_window s"
  using assms
  by (auto simp: write_buffer_def Let_def split: if_splits sum.splits)

lemma audio_callback_schedule:
  assumes "audio_callback s indata f ov = Inl (e, s1) \<or> audio_callback s indata f ov = Inr s1"
  shows "ready_to_publish s1 = ready_to_publish s
       \<and> stream_start_time s1 = stream_start_time s
       \<and> analysis_window s1 = analysis_window s"
proof (cases "mono_data_of (channels (if ov then s\<lparr>overflow_count := overflow_count s + 1\<rparr> else s)) indata")
  case (Inl err)
  then show ?thesis using assms by (auto simp: audio_callback_def Let_def split: if_splits)
next
  case (Inr m)
  then have "write_buffer (if ov then s\<lparr>overflow_count := overflow_count s + 1\<rparr> else s) m f = Inl (e, s1)
      \<or> write_buffer (if ov then s\<lparr>overflow_count := overflow_count s + 1\<rparr> else s) m f = Inr s1"
    using assms by (simp add: audio_callback_def Let_def)
  from write_buffer_schedule [OF this] show ?thesis by (simp split: if_splits)
qed

lemma processing_step_schedule:
  "stream_start_time (fst (processing_step s now)) = stream_start_time s
   \<and> analysis_window (fst (processing_step s now)) = analysis_window s"
  by (simp add: processing_step_def Let_def)

lemma processing_step_ready:
  "ready_to_publish s \<Longrightarrow> ready_to_publish (fst (processing_step s now))"
  by (simp add: processing_step_def Let_def)

lemma processing_step_warming:
  assumes "\<not> ready_to_publish s" "\<not> window_elapsed s now"
  shows "processing_step s now = (s, None, 1)"
  using assms by (simp add: processing_step_def)

lemma processing_step_transition:
  assumes "window_elapsed s now"
  shows "ready_to_publish (fst (processing_step s now))"
  using assms by (simp add: processing_step_def Let_def)


lemma window_elapsed_cong:
  "stream_start_time s1 = stream_start_time s \<Longrightarrow> analysis_window s1 = analysis_window s
   \<Longrightarrow> window_elapsed s1 now = window_elapsed s now"
  by (auto simp: window_elapsed_def split: option.splits)

lemma run_events_fst_Tick:
  "fst (run_events s (Tick now # es)) = fst (run_events (fst (processing_step s now)) es)"
  by (auto split: prod.splits)

lemma run_events_snd_Tick:
  "snd (run_events s (Tick now # es)) =
     (case fst (snd (processing_step s now)) of
        None \<Rightarrow> snd (run_events (fst (processing_step s now)) es)
      | Some d \<Rightarrow> d # snd (run_events (fst (processing_step s now)) es))"
  by (auto split: prod.splits option.splits)

lemma run_events_Audio:
  "run_events s (Audio indata frames ov # es)
     = run_events (state_after (audio_callback s indata frames ov)) es"
  by (auto simp: state_after_def split: sum.splits)

lemma state_after_schedule:
  "ready_to_publish (state_after (audio_callback s indata f ov)) = ready_to_publish s
   \<and> stream_start_time (state_after (audio_callback s indata f ov)) = stream_start_time s
   \<and> analysis_window (state_after (audio_callback s indata f ov)) = analysis_window s"
proof (cases "audio_callback s indata f ov")
  case (Inl raised)
  obtain e s1 where r: "raised = (e, s1)" by (cases raised) auto
  from audio_callback_schedule [of s indata f ov e s1] Inl r show ?thesis
    by (simp add: state_after_def)
next
  case (Inr s1)
  from audio_callback_schedule [of s indata f ov _ s1] Inr show ?thesis
    by (simp add: state_after_def)
qed

lemma run_events_schedule:
  "stream_start_time (fst (run_events s es)) = stream_start_time s
   \<and> analysis_window (fst (run_events s es)) = analysis_window s"
proof (induction es arbitrary: s)
  case Nil
  then show ?case by simp
next
  case (Cons ev es)
  show ?case
  proof (cases ev)
    case (Tick now)
    show ?thesis
      unfolding Tick run_events_fst_Tick
      using Cons [of "fst (processing_step s now)"] processing_step_schedule [of s now]
      by simp
  next
    case (Audio indata f ov)
    show ?thesis
      unfolding Audio run_events_Audio
      using Cons [of "state_after (audio_callback s indata f ov)"]
        state_after_schedule [of s indata f ov]
      by simp
  qed
qed

lemma run_events_terminal:
  "ready_to_publish s \<Longrightarrow> ready_to_publish (fst (run_events s es))"
proof (induction es arbitrary: s)
  case Nil
  then show ?case by simp
next
  case (Cons ev es)
  show ?case
  proof (cases ev)
    case (Tick now)
    show ?thesis
      unfolding Tick run_events_fst_Tick
      using Cons.prems by (intro Cons.IH processing_step_ready)
  next
    case (Audio indata f ov)
    show ?thesis
      unfolding Audio run_events_Audio
      using Cons.prems state_after_schedule [of s indata f ov] by (intro Cons.IH) simp
  qed
qed

lemma run_events_warming:
  "\<not> ready_to_publish s \<Longrightarrow> \<forall>now. Tick now \<in> set es \<longrightarrow> \<not> window_elapsed s now
   \<Longrightarrow> \<not> ready_to_publish (fst (run_events s es)) \<and> snd (run_events s es) = []"
proof (induction es arbitrary: s)
  case Nil
  then show ?case by simp
next
  case (Cons ev es)
  show ?case
  proof (cases ev)
    case (Tick now)
    have st: "processing_step s now = (s, None, 1)"
      using Cons.prems Tick by (intro processing_step_warming) simp_all
    have "\<not> ready_to_publish (fst (run_events s es)) \<and> snd (run_events s es) = []"
      using Cons.prems by (intro Cons.IH) simp_all
    then show ?thesis
      unfolding Tick run_events_fst_Tick run_events_snd_Tick st by simp
  next
    case (Audio indata f ov)
    let ?s1 = "state_after (audio_callback s indata f ov)"
    note f = state_after_schedule [of s indata f ov]
    have "\<forall>now. Tick now \<in> set es \<longrightarrow> \<not> window_elapsed ?s1 now"
      using Cons.prems(2) f by (simp add: window_elapsed_cong [of ?s1 s])
    moreover have "\<not> ready_to_publish ?s1" using Cons.prems(1) f by simp
    ultimately show ?thesis
      unfolding Audio run_events_Audio by (intro Cons.IH)
  qed
qed

lemma run_events_append:
  "fst (run_events s (es @ es')) = fst (run_events (fst (run_events s es)) es')"
proof (induction es arbitrary: s)
  case Nil
  then show ?case by simp
next
  case (Cons ev es)
  show ?case
  proof (cases ev)
    case (Tick now)
    show ?thesis
      unfolding Tick append_Cons run_events_fst_Tick by (rule Cons.IH)
  next
    case (Audio indata f ov)
    show ?thesis
      unfolding Audio append_Cons run_events_Audio by (rule Cons.IH)
  qed
qed

text \<open>
  Claim C8. With the stream start time recorded (and not the zero that Python takes for
  false), over any sequence of loop iterations and audio callbacks: as long as every
  iteration's clock reading \<open>now\<close> has \<open>now - stream_start_time < analysis_window\<close>
  the loop stays in warm-up and publishes nothing; an iteration with
  \<open>now - stream_start_time \<ge> analysis_window\<close> leaves it ready to publish; and once
  ready it stays ready whatever follows.
\<close>

theorem warm_up_then_active:
  assumes "stream_start_time s = Some t" and "t \<noteq> 0"
  shows "(\<not> ready_to_publish s \<and> (\<forall>now. Tick now \<in> set es \<longrightarrow> now - t < analysis_window s)
            \<longrightarrow> \<not> ready_to_publish (fst (run_events s es)) \<and> snd (run_events s es) = [])
       \<and> (analysis_window s \<le> now - t
            \<longrightarrow> ready_to_publish (fst (run_events s (es @ [Tick now]))))
       \<and> (ready_to_publish s \<longrightarrow> ready_to_publish (fst (run_events s (es @ es'))))"
proof -
  have warm: "\<not> ready_to_publish (fst (run_events s es)) \<and> snd (run_events s es) = []"
    if "\<not> ready_to_publish s" "\<forall>now. Tick now \<in> set es \<longrightarrow> now - t < analysis_window s"
  proof -
    have "\<forall>now. Tick now \<in> set es \<longrightarrow> \<not> window_elapsed s now"
      using that(2) by (auto simp: window_elapsed_def assms(1))
    with that(1) show ?thesis by (rule run_events_warming)
  qed
  have active: "ready_to_publish (fst (run_events s (es @ [Tick now])))"
    if "analysis_window s \<le> now - t"
  proof -
    let ?s1 = "fst (run_events s es)"
    have "window_elapsed s now"
      using that assms by (simp add: window_elapsed_def)
    then have "window_elapsed ?s1 now"
      using run_events_schedule [of s es] by (simp add: window_elapsed_cong [of ?s1 s])
    then have "ready_to_publish (fst (processing_step ?s1 now))"
      by (rule processing_step_transition)
    then show ?thesis
      unfolding run_events_append run_events_fst_Tick by simp
  qed
  have terminal: "ready_to_publish (fst (run_events s (es @ es')))" if "ready_to_publish s"
    using that by (rule run_events_terminal)
  show ?thesis using warm active terminal by blast
qed

theorem warm_up_then_active_witness:
  "\<not> ready_to_publish
       (fst (run_events (monitor_with 50 10 [0, 0, 0, 0, 0] 0\<lparr>stream_start_time := Some 100\<rparr>)
              [Tick 105]))
   \<and> snd (run_events (monitor_with 50 10 [0, 0, 0, 0, 0] 0\<lparr>stream_start_time := Some 100\<rparr>)
              [Tick 105]) = []
   \<and> ready_to_publish
       (fst (run_events (monitor_with 50 10 [0, 0, 0, 0, 0] 0\<lparr>stream_start_time := Some 100\<rparr>)
              ([Tick 105] @ [Tick 111])))
   \<and> ready_to_publish
       (fst (run_events (monitor_with 50 10 [0, 0, 0, 0, 0] 0
                          \<lparr>stream_start_time := Some 100, ready_to_publish := True\<rparr>)
              ([Tick 105] @ [Audio [[1]] 1 False, Tick 106])))"
proof -
  have 1: "stream_start_time (monitor_with 50 10 [0, 0, 0, 0, 0] 0\<lparr>stream_start_time := Some 100\<rparr>)
             = Some 100"
    and 2: "stream_start_time (monitor_with 50 10 [0, 0, 0, 0, 0] 0
                          \<lparr>stream_start_time := Some 100, ready_to_publish := True\<rparr>) = Some 100"
    and 3: "(100::real) \<noteq> 0"
    by simp_all
  have 4: "\<not> ready_to_publish (monitor_with 50 10 [0, 0, 0, 0, 0] 0\<lparr>stream_start_time := Some 100\<rparr>)"
    and 5: "analysis_window (monitor_with 50 10 [0, 0, 0, 0, 0] 0\<lparr>stream_start_time := Some 100\<rparr>) = 10"
    and 6: "ready_to_publish (monitor_with 50 10 [0, 0, 0, 0, 0] 0
                          \<lparr>stream_start_time := Some 100, ready_to_publish := True\<rparr>)"
    by (simp_all add: monitor_with_def)
  show ?thesis
    using warm_up_then_active [OF 1 3, of "[Tick 105]" 111 "[]"]
      warm_up_then_active [OF 2 3, of "[Tick 105]" 111 "[Audio [[1]] 1 False, Tick 106]"]
      4 5 6
    by simp
qed

section \<open>The lock and concurrent writes\<close>

lemma read_steps_sequential:
  assumes "\<not> buffer_locked s"
  shows "(case read_begin s seconds of
            None \<Rightarrow> False
          | Some (Inl (e, s1)) \<Rightarrow> get_recent_audio s seconds = Inl e \<and> s1 = s
          | Some (Inr (s1, start)) \<Rightarrow>
              get_recent_audio s seconds = Inr (read_copy s1 start (read_test s1 start))
              \<and> lock_release s1 = s)"
  using assms
  by (simp add: read_begin_def lock_acquire_def lock_release_def get_recent_audio_def Let_def
      read_copy_def read_test_def copy_out_def)

lemma write_buffer_ignores_lock:
  "write_buffer (s\<lparr>buffer_locked := b\<rparr>) d frames
     = map_sum (\<lambda>(e, s1). (e, s1\<lparr>buffer_locked := b\<rparr>)) (\<lambda>s1. s1\<lparr>buffer_locked := b\<rparr>)
         (write_buffer s d frames)"
  by (auto simp: write_buffer_def Let_def split: sum.splits)

lemma audio_callback_ignores_lock:
  "audio_callback (s\<lparr>buffer_locked := b\<rparr>) indata frames ov
     = map_sum (\<lambda>(e, s1). (e, s1\<lparr>buffer_locked := b\<rparr>)) (\<lambda>s1. s1\<lparr>buffer_locked := b\<rparr>)
         (audio_callback s indata frames ov)"
proof -
  define s0 where "s0 = (if ov then s\<lparr>overflow_count := overflow_count s + 1\<rparr> else s)"
  have sw: "(if ov then (s\<lparr>buffer_locked := b\<rparr>)\<lparr>overflow_count :=
                overflow_count (s\<lparr>buffer_locked := b\<rparr>) + 1\<rparr> else s\<lparr>buffer_locked := b\<rparr>)
          = s0\<lparr>buffer_locked := b\<rparr>"
    by (simp add: s0_def)
  have l: "audio_callback (s\<lparr>buffer_locked := b\<rparr>) indata frames ov
      = (case mono_data_of (channels s0) indata of
           Inl e \<Rightarrow> Inl (e, s0\<lparr>buffer_locked := b\<rparr>)
         | Inr mono_data \<Rightarrow> write_buffer (s0\<lparr>buffer_locked := b\<rparr>) mono_data frames)"
    unfolding audio_callback_def Let_def sw by simp
  have r: "audio_callback s indata frames ov
      = (case mono_data_of (channels s0) indata of
           Inl e \<Rightarrow> Inl (e, s0)
         | Inr mono_data \<Rightarrow> write_buffer s0 mono_data frames)"
    unfolding audio_callback_def Let_def s0_def by simp
  show ?thesis
    unfolding l r by (simp add: write_buffer_ignores_lock split: sum.splits)
qed

text \<open>
  Claim C9. \<^verbatim>\<open>get_recent_audio\<close> holds \<^verbatim>\<open>buffer_lock\<close> from the computation of the start
  index to the copy, but \<^verbatim>\<open>audio_callback\<close> never acquires it, so a callback runs while
  the reader holds the lock. With capacity 6 and the samples 1 to 6 in the buffer, a read
  of four samples that has tested \<^verbatim>\<open>start_index < self.write_index\<close> when a callback
  writes 7, 8, 9 returns seven samples, 9 first and last: no window of the signal. The
  same read returns 3 to 6 before the callback and 6 to 9 after it.
\<close>

theorem torn_read_without_writer_lock:
  "read_begin (monitor_with 10 1 [5, 6, 1, 2, 3, 4] 2) (4 / 10)
     = Some (Inr (monitor_with 10 1 [5, 6, 1, 2, 3, 4] 2\<lparr>buffer_locked := True\<rparr>, 4))
   \<and> read_test (monitor_with 10 1 [5, 6, 1, 2, 3, 4] 2\<lparr>buffer_locked := True\<rparr>) 4 = False
   \<and> audio_callback (monitor_with 10 1 [5, 6, 1, 2, 3, 4] 2\<lparr>buffer_locked := True\<rparr>)
        [[7], [8], [9]] 3 False
      = Inr (monitor_with 10 1 [5, 6, 7, 8, 9, 4] 5\<lparr>buffer_locked := True, total_frames := 3\<rparr>)
   \<and> read_copy (monitor_with 10 1 [5, 6, 7, 8, 9, 4] 5\<lparr>buffer_locked := True, total_frames := 3\<rparr>)
        4 False
      = [9, 4, 5, 6, 7, 8, 9]
   \<and> get_recent_audio (monitor_with 10 1 [5, 6, 1, 2, 3, 4] 2) (4 / 10) = Inr [3, 4, 5, 6]
   \<and> get_recent_audio (monitor_with 10 1 [5, 6, 7, 8, 9, 4] 5) (4 / 10) = Inr [6, 7, 8, 9]"
  by (simp add: read_begin_def lock_acquire_def read_test_def read_copy_def
      audio_callback_def write_buffer_def mono_data_of_def column_def
      get_recent_audio_def samples_needed_of_def copy_out_def monitor_with_def Let_def
      np_set_slice_def py_int_def py_slice_def slice_bounds_def clamp_index_def)

end
